theory Spec2Isabelle
  imports Complex_Main
begin

section \<open>The adaptive exponential integrate-and-fire ensemble of \<open>models/nodes/aEIF.py\<close>\<close>

text \<open>
  The class \<open>aEIF\<close> keeps, for \<open>num\<close> neurons, four float arrays (\<open>mem\<close>, \<open>w\<close>,
  \<open>w_tail\<close>, \<open>V_T\<close>), one integer array (\<open>counter\<close>) and a clock \<open>t\<close>. A call of the
  object advances every neuron by one explicit Euler step (\<open>updateVar\<close>) and then runs the
  spike protocol (\<open>_spikes_eval\<close>), which is written with numpy index arrays.

  Python floats and numpy float arrays are read as real numbers (exact arithmetic), numpy
  arrays of one dimension as lists, Python integers as \<open>int\<close>. A method of the object is
  a function from the object to the exception it raised, if any, and the object as the
  method left it.
\<close>

subsection \<open>Exceptions\<close>

datatype error = InvalidConfiguration | ValueError | IndexError | ZeroDivisionError | AttributeError

text \<open>Evaluation of an expression that may raise, followed by the rest of the computation.\<close>

definition bindE :: "error + 'a \<Rightarrow> ('a \<Rightarrow> error + 'b) \<Rightarrow> error + 'b" where
  "bindE r k = (case r of Inl e \<Rightarrow> Inl e | Inr v \<Rightarrow> k v)"

subsection \<open>The numpy operations the class uses\<close>

text \<open>
  A binary elementwise operation on two arrays of one dimension broadcasts an array of
  length 1 over the other one; any other pair of different lengths raises
  \<open>ValueError\<close> (operands could not be broadcast together).
\<close>

definition np_bin :: "('a \<Rightarrow> 'b \<Rightarrow> 'c) \<Rightarrow> 'a list \<Rightarrow> 'b list \<Rightarrow> error + 'c list" where
  "np_bin f xs ys =
     (if length xs = length ys then Inr (map2 f xs ys)
      else if length xs = 1 then Inr (map (f (hd xs)) ys)
      else if length ys = 1 then Inr (map (\<lambda>x. f x (hd ys)) xs)
      else Inl ValueError)"

text \<open>\<open>np.where(mask)\<close>: the indices at which the mask holds, in increasing order.\<close>

definition np_where :: "bool list \<Rightarrow> nat list" where
  "np_where m = filter (\<lambda>i. m ! i) [0..<length m]"

text \<open>
  \<open>xs[idx]\<close> with an index array reads the selected elements; \<open>xs[idx] = v\<close> stores a
  scalar and \<open>xs[idx] = vs\<close> one value per index. An index outside the array raises
  \<open>IndexError\<close>, and then nothing is stored.
\<close>

definition take_at :: "'a list \<Rightarrow> nat list \<Rightarrow> error + 'a list" where
  "take_at xs idx =
     (if \<forall>i \<in> set idx. i < length xs then Inr (map (\<lambda>i. xs ! i) idx) else Inl IndexError)"

definition put_at :: "'a list \<Rightarrow> nat list \<Rightarrow> 'a list \<Rightarrow> error + 'a list" where
  "put_at xs idx vs =
     (if length vs \<noteq> length idx then Inl ValueError
      else if \<forall>i \<in> set idx. i < length xs
      then Inr (fold (\<lambda>(i, v) ys. ys[i := v]) (zip idx vs) xs)
      else Inl IndexError)"

definition set_at :: "'a list \<Rightarrow> nat list \<Rightarrow> 'a \<Rightarrow> error + 'a list" where
  "set_at xs idx v =
     (if \<forall>i \<in> set idx. i < length xs then Inr (fold (\<lambda>i ys. ys[i := v]) idx xs)
      else Inl IndexError)"

text \<open>Python's \<open>round\<close> of a float: to the nearest integer, a tie to the even one.\<close>

definition py_round :: "real \<Rightarrow> int" where
  "py_round x =
     (let f = \<lfloor>x\<rfloor>; d = x - of_int f
      in if d < 1 / 2 then f else if 1 / 2 < d then f + 1 else if even f then f else f + 1)"

subsection \<open>The model parameters of \<open>_params\<close>\<close>

definition C :: real where "C = 281"
definition g_L :: real where "g_L = 30"
definition E_L :: real where "E_L = - 70.6"
definition VT_rest :: real where "VT_rest = - 50.4"
definition Delta_T :: real where "Delta_T = 2"
definition tau_w :: real where "tau_w = 144"
definition a :: real where "a = 4"
definition b :: real where "b = 0.0805"
definition w_jump :: real where "w_jump = 400"
definition tau_wtail :: real where "tau_wtail = 40"
definition tau_VT :: real where "tau_VT = 50"
definition VT_jump :: real where "VT_jump = 20"
definition th :: real where "th = 20"
definition Iex :: real where "Iex = 0"
definition t_spike :: real where "t_spike = 2"

subsection \<open>The object\<close>

text \<open>
  The attributes that differ between objects or change during a run. \<open>dw_dt\<close> does not
  exist before the first \<open>updateVar\<close>: reading it then raises \<open>AttributeError\<close>.
  The field \<open>method_name\<close> is the attribute \<open>method\<close>.
\<close>

record aEIF =
  num :: int
  method_name :: string
  dt :: real
  t :: real
  mem :: "real list"
  w :: "real list"
  w_tail :: "real list"
  V_T :: "real list"
  N_vars :: nat
  counter :: "int list"
  dw_dt :: "real list option"


text \<open>
  A fresh object: no attribute has been assigned yet. \<open>__init__\<close> assigns every field
  but \<open>dw_dt\<close> before anything reads it, so the values given here are never observed.
\<close>

definition new_object :: aEIF where
  "new_object =
     \<lparr>num = 0, method_name = [], dt = 0, t = 0, mem = [], w = [], w_tail = [], V_T = [],
      N_vars = 0, counter = [], dw_dt = None\<rparr>"

text \<open>
  A statement whose expression raises ends the method with that exception and the object
  as it is at that point; otherwise the method goes on with the value. \<open>andthen\<close> runs a
  second method on the object the first one left, unless the first one raised.
\<close>

definition raising :: "error + 'a \<Rightarrow> aEIF \<Rightarrow> ('a \<Rightarrow> error option \<times> aEIF) \<Rightarrow> error option \<times> aEIF" where
  "raising r self k = (case r of Inl e \<Rightarrow> (Some e, self) | Inr v \<Rightarrow> k v)"

definition andthen :: "error option \<times> aEIF \<Rightarrow> (aEIF \<Rightarrow> error option \<times> aEIF) \<Rightarrow> error option \<times> aEIF" where
  "andthen r k = (case fst r of Some e \<Rightarrow> r | None \<Rightarrow> k (snd r))"

subsection \<open>Construction\<close>

text \<open>
  Modelled from the spec: the base class \<open>Neurons\<close> of module \<open>base_Mod\<close>, whose
  \<open>__init__\<close> the constructor of \<open>aEIF\<close> calls first, is not among the sources. The
  specification says of construction: allocates the state, sets the configuration, and
  "fails with InvalidConfiguration if N < 1 or dt <= 0". The attributes \<open>num\<close>, \<open>dt\<close> and
  \<open>method\<close> are the ones the methods of \<open>aEIF\<close> read.
\<close>

definition Neurons_init :: "aEIF \<Rightarrow> int \<Rightarrow> string \<Rightarrow> real \<Rightarrow> error option \<times> aEIF" where
  "Neurons_init self N meth h =
     (if N < 1 \<or> h \<le> 0 then (Some InvalidConfiguration, self)
      else (None, self\<lparr>num := N, method_name := meth, dt := h\<rparr>))"

text \<open>\<open>_params\<close>: the constants above, and the clock at 0.\<close>

definition params :: "aEIF \<Rightarrow> error option \<times> aEIF" where
  "params self = (None, self\<lparr>t := 0\<rparr>)"

text \<open>\<open>_vars\<close>: \<open>np.ones\<close> and \<open>np.zeros\<close> raise \<open>ValueError\<close> on a negative length.\<close>

definition vars :: "aEIF \<Rightarrow> error option \<times> aEIF" where
  "vars self =
     (if num self < 0 then (Some ValueError, self)
      else
        (None,
         self\<lparr>mem := map (\<lambda>x. E_L * x) (replicate (nat (num self)) 1),
              w := replicate (nat (num self)) 0,
              w_tail := replicate (nat (num self)) 0,
              V_T := map (\<lambda>x. - 50.4 * x) (replicate (nat (num self)) 1),
              N_vars := 4,
              counter := replicate (nat (num self)) 0\<rparr>))"

definition aEIF_init :: "int \<Rightarrow> string \<Rightarrow> real \<Rightarrow> error option \<times> aEIF" where
  "aEIF_init N meth h = andthen (andthen (Neurons_init new_object N meth h) params) vars"

subsection \<open>The Euler step: \<open>updateVar\<close>\<close>

text \<open>The input current of a call is a float or an array of one dimension.\<close>

datatype current = Scalar real | Vector "real list"

definition plus_current :: "real list \<Rightarrow> current \<Rightarrow> error + real list" where
  "plus_current xs I =
     (case I of Scalar x \<Rightarrow> Inr (map (\<lambda>y. y + x) xs) | Vector ys \<Rightarrow> np_bin (+) xs ys)"

definition dmem_dt_expr :: "aEIF \<Rightarrow> current \<Rightarrow> error + real list" where
  "dmem_dt_expr self I =
     bindE (np_bin (-) (mem self) (V_T self)) (\<lambda>d.
     bindE (np_bin (+) (map (\<lambda>m. - g_L * (m - E_L)) (mem self))
                        (map (\<lambda>x. g_L * Delta_T * exp (x / Delta_T)) d)) (\<lambda>s1.
     bindE (np_bin (-) s1 (w self)) (\<lambda>s2.
     bindE (np_bin (+) s2 (w_tail self)) (\<lambda>s3.
     bindE (plus_current s3 I) (\<lambda>s4.
     Inr (map (\<lambda>x. 1 / C * x) s4))))))"

definition dw_dt_expr :: "aEIF \<Rightarrow> error + real list" where
  "dw_dt_expr self =
     bindE (np_bin (-) (map (\<lambda>m. a * (m - E_L)) (mem self)) (w self)) (\<lambda>d.
     Inr (map (\<lambda>x. 1 / tau_w * x) d))"

definition updateVar :: "aEIF \<Rightarrow> current \<Rightarrow> error option \<times> aEIF" where
  "updateVar self I =
     raising (dmem_dt_expr self I) self (\<lambda>dmem_dt.
     raising (dw_dt_expr self) self (\<lambda>dw.
     let self1 = self\<lparr>dw_dt := Some dw\<rparr> in
     raising (np_bin (+) (mem self1) (map (\<lambda>x. x * dt self1) dmem_dt)) self1 (\<lambda>mem'.
     let self2 = self1\<lparr>mem := mem'\<rparr> in
     raising (np_bin (+) (w self2) (map (\<lambda>x. x * dt self2) dw)) self2 (\<lambda>w'.
     let self3 = self2\<lparr>w := w'\<rparr>;
         self4 = self3\<lparr>w_tail := map (\<lambda>x. x - x * dt self3 / tau_wtail) (w_tail self3)\<rparr>;
         self5 = self4\<lparr>V_T := map (\<lambda>x. VT_rest * dt self4 / tau_VT
                                         + (1 - dt self4 / tau_VT) * x) (V_T self4)\<rparr>
     in (None, self5)))))"

subsection \<open>The spike protocol: \<open>_spikes_eval\<close>\<close>

text \<open>
  \<open>xs[idx] op= vs\<close> reads the selected elements, combines them with \<open>vs\<close> and stores
  the results at the same indices.
\<close>

definition aug_at :: "('a \<Rightarrow> 'b \<Rightarrow> 'a) \<Rightarrow> 'a list \<Rightarrow> nat list \<Rightarrow> 'b list \<Rightarrow> error + 'a list" where
  "aug_at f xs idx vs = bindE (take_at xs idx) (\<lambda>cur. put_at xs idx (map2 f cur vs))"

definition aug_at_scalar :: "('a \<Rightarrow> 'b \<Rightarrow> 'a) \<Rightarrow> 'a list \<Rightarrow> nat list \<Rightarrow> 'b \<Rightarrow> error + 'a list" where
  "aug_at_scalar f xs idx v =
     bindE (take_at xs idx) (\<lambda>cur. put_at xs idx (map (\<lambda>x. f x v) cur))"

text \<open>
  The function has three blocks, each of which selects neurons with \<open>np.where\<close> and
  then assigns to the selected elements. Each block reads \<open>self.counter\<close> as the block
  before it left it. The blocks are given one definition each, in the order of the source.

  The Active and the End mask compare the product \<open>dt * counter\<close> with \<open>t_spike\<close>. Here
  the product is the exact real number, in the code it is the float64 product, rounded.
  Rounding is monotone, so what is stated below through these comparisons reads the same
  on the rounded products; a number of calls expressed through \<open>t_spike / dt\<close> holds in
  exact arithmetic, and is marked as such where it is stated.
\<close>

definition spike_starts :: "aEIF \<Rightarrow> real list \<Rightarrow> error + nat list" where
  "spike_starts self m =
     bindE (np_bin (\<and>) (map (\<lambda>x. th < x) m) (map (\<lambda>c. c = 0) (counter self))) (\<lambda>mask.
     Inr (np_where mask))"

definition onset_block :: "aEIF \<Rightarrow> real list \<Rightarrow> error option \<times> aEIF" where
  "onset_block self m =
     raising (spike_starts self m) self (\<lambda>idx.
     raising (set_at (mem self) idx 24.4) self (\<lambda>mem'.
     let self1 = self\<lparr>mem := mem'\<rparr> in
     raising (set_at (counter self1) idx 1) self1 (\<lambda>counter'.
     (None, self1\<lparr>counter := counter'\<rparr>))))"

definition conut :: "aEIF \<Rightarrow> real" where
  "conut self = t_spike / dt self - 1"

definition active_spikes :: "aEIF \<Rightarrow> nat list" where
  "active_spikes self =
     np_where (map (\<lambda>c. dt self * of_int c < t_spike \<and> 0 < c) (counter self))"

definition active_block :: "aEIF \<Rightarrow> error option \<times> aEIF" where
  "active_block self =
     (if dt self = 0 then (Some ZeroDivisionError, self)
      else
        let idx = active_spikes self in
        raising (take_at (counter self) idx) self (\<lambda>cs.
        raising (put_at (mem self) idx
                   (map (\<lambda>c. 32.862 - 8.462 * of_int \<bar>py_round (conut self / 2) - c\<bar> / conut self) cs))
          self (\<lambda>mem'.
        let self1 = self\<lparr>mem := mem'\<rparr> in
        raising (take_at (w self1) idx) self1 (\<lambda>ws.
        raising (case dw_dt self1 of None \<Rightarrow> Inl AttributeError | Some dw \<Rightarrow> take_at dw idx)
          self1 (\<lambda>dws.
        raising (put_at (w self1) idx (map2 (\<lambda>x d. x - d * dt self1) ws dws)) self1 (\<lambda>w'.
        let self2 = self1\<lparr>w := w'\<rparr> in
        raising (aug_at_scalar (+) (counter self2) idx 1) self2 (\<lambda>counter'.
        (None, self2\<lparr>counter := counter'\<rparr>))))))))"

definition end_spikes :: "aEIF \<Rightarrow> nat list" where
  "end_spikes self = np_where (map (\<lambda>c. t_spike \<le> dt self * of_int c) (counter self))"

definition end_block :: "aEIF \<Rightarrow> error option \<times> aEIF" where
  "end_block self =
     (let idx = end_spikes self in
      raising (set_at (mem self) idx (E_L + 15 + 6.0984)) self (\<lambda>mem'.
      let self1 = self\<lparr>mem := mem'\<rparr> in
      raising (aug_at_scalar (+) (w self1) idx b) self1 (\<lambda>w'.
      let self2 = self1\<lparr>w := w'\<rparr> in
      raising (set_at (w_tail self2) idx w_jump) self2 (\<lambda>w_tail'.
      let self3 = self2\<lparr>w_tail := w_tail'\<rparr> in
      raising (set_at (V_T self3) idx (VT_jump + VT_rest)) self3 (\<lambda>V_T'.
      let self4 = self3\<lparr>V_T := V_T'\<rparr> in
      raising (set_at (counter self4) idx 0) self4 (\<lambda>counter'.
      (None, self4\<lparr>counter := counter'\<rparr>)))))))"

definition spikes_eval :: "aEIF \<Rightarrow> real list \<Rightarrow> error option \<times> aEIF" where
  "spikes_eval self m = andthen (andthen (onset_block self m) active_block) end_block"

subsection \<open>One step: \<open>__call__\<close>\<close>

definition add_Iex :: "current \<Rightarrow> current" where
  "add_Iex Io = (case Io of Scalar x \<Rightarrow> Scalar (x + Iex) | Vector xs \<Rightarrow> Vector (map (\<lambda>x. x + Iex) xs))"

definition call :: "aEIF \<Rightarrow> current \<Rightarrow> error option \<times> aEIF" where
  "call self Io =
     andthen (andthen (updateVar self (add_Iex Io)) (\<lambda>s. spikes_eval s (mem s)))
       (\<lambda>s. (None, s\<lparr>t := t s + dt s\<rparr>))"

text \<open>A driver loop: one call for each input of a list, stopping at the first exception.\<close>

fun run :: "aEIF \<Rightarrow> current list \<Rightarrow> error option \<times> aEIF" where
  "run self [] = (None, self)"
| "run self (Io # Ios) = andthen (call self Io) (\<lambda>s. run s Ios)"

section \<open>Notions used to state and prove the properties\<close>

text \<open>
  The ensemble is well formed when its five arrays have the length \<open>num\<close>; an input
  current fits when it is a float or an array of that length, the shapes the docstring
  of \<open>__call__\<close> gives for one row. \<open>cur Io i\<close> is the current neuron \<open>i\<close> receives.
\<close>

definition masked :: "bool list \<Rightarrow> (nat \<Rightarrow> 'a) \<Rightarrow> 'a list \<Rightarrow> 'a list" where
  "masked m f xs = map (\<lambda>j. if m ! j then f j else xs ! j) [0..<length xs]"

definition wf :: "aEIF \<Rightarrow> bool" where
  "wf self \<longleftrightarrow>
     length (mem self) = nat (num self) \<and> length (w self) = nat (num self) \<and>
     length (w_tail self) = nat (num self) \<and> length (V_T self) = nat (num self) \<and>
     length (counter self) = nat (num self)"

definition ok_input :: "aEIF \<Rightarrow> current \<Rightarrow> bool" where
  "ok_input self Io = (case Io of Scalar x \<Rightarrow> True | Vector xs \<Rightarrow> length xs = nat (num self))"

definition cur :: "current \<Rightarrow> nat \<Rightarrow> real" where
  "cur Io i = (case Io of Scalar x \<Rightarrow> x | Vector xs \<Rightarrow> xs ! i)"

definition dmem_dt_at :: "aEIF \<Rightarrow> current \<Rightarrow> nat \<Rightarrow> real" where
  "dmem_dt_at self Io i =
     1 / C * (- g_L * (mem self ! i - E_L)
              + g_L * Delta_T * exp ((mem self ! i - V_T self ! i) / Delta_T)
              - w self ! i + w_tail self ! i + (cur Io i + Iex))"

definition dw_dt_at :: "aEIF \<Rightarrow> nat \<Rightarrow> real" where
  "dw_dt_at self i = 1 / tau_w * (a * (mem self ! i - E_L) - w self ! i)"

definition euler :: "aEIF \<Rightarrow> current \<Rightarrow> aEIF" where
  "euler self Io =
     self\<lparr>dw_dt := Some (map (dw_dt_at self) [0..<nat (num self)]),
          mem := map (\<lambda>i. mem self ! i + dmem_dt_at self Io i * dt self) [0..<nat (num self)],
          w := map (\<lambda>i. w self ! i + dw_dt_at self i * dt self) [0..<nat (num self)],
          w_tail := map (\<lambda>x. x - x * dt self / tau_wtail) (w_tail self),
          V_T := map (\<lambda>x. VT_rest * dt self / tau_VT + (1 - dt self / tau_VT) * x) (V_T self)\<rparr>"

definition onset_mask :: "aEIF \<Rightarrow> bool list" where
  "onset_mask self = map2 (\<and>) (map (\<lambda>x. th < x) (mem self)) (map (\<lambda>c. c = 0) (counter self))"

definition active_mask :: "aEIF \<Rightarrow> bool list" where
  "active_mask self = map (\<lambda>c. dt self * of_int c < t_spike \<and> 0 < c) (counter self)"

definition end_mask :: "aEIF \<Rightarrow> bool list" where
  "end_mask self = map (\<lambda>c. t_spike \<le> dt self * of_int c) (counter self)"

definition after_update :: "aEIF \<Rightarrow> current \<Rightarrow> aEIF" where
  "after_update self Io = snd (updateVar self (add_Iex Io))"

definition after_onset :: "aEIF \<Rightarrow> current \<Rightarrow> aEIF" where
  "after_onset self Io = snd (onset_block (after_update self Io) (mem (after_update self Io)))"

definition after_active :: "aEIF \<Rightarrow> current \<Rightarrow> aEIF" where
  "after_active self Io = snd (active_block (after_onset self Io))"

definition onset_at :: "aEIF \<Rightarrow> current \<Rightarrow> nat \<Rightarrow> bool" where
  "onset_at self Io i =
     (case spike_starts (after_update self Io) (mem (after_update self Io)) of
        Inl e \<Rightarrow> False | Inr idx \<Rightarrow> i \<in> set idx)"

definition active_at :: "aEIF \<Rightarrow> current \<Rightarrow> nat \<Rightarrow> bool" where
  "active_at self Io i \<longleftrightarrow> i \<in> set (active_spikes (after_onset self Io))"

definition end_at :: "aEIF \<Rightarrow> current \<Rightarrow> nat \<Rightarrow> bool" where
  "end_at self Io i \<longleftrightarrow> i \<in> set (end_spikes (after_active self Io))"

subsection \<open>Example ensembles\<close>

text \<open>
  One neuron and two neurons with the default step \<open>dt = 0.25\<close> and method of the
  constructor, as built by \<open>aEIF(1)\<close> and \<open>aEIF(2)\<close>.
\<close>

definition ex_state :: aEIF where
  "ex_state = snd (aEIF_init 1 ''euler'' 0.25)"

definition ex_pair :: aEIF where
  "ex_pair = snd (aEIF_init 2 ''euler'' 0.25)"

text \<open>One neuron with the step \<open>dt = 1\<close>, as built by \<open>aEIF(1, dt=1)\<close>.\<close>

definition ex_coarse :: aEIF where
  "ex_coarse = snd (aEIF_init 1 ''euler'' 1)"

text \<open>
  The one-neuron ensemble five calls after the call in which a current of \<open>10^6\<close> made it
  spike: the state before the last call of the spike window.
\<close>

definition ex_last :: aEIF where
  "ex_last = snd (run (snd (call ex_state (Scalar 1000000))) (replicate 5 (Scalar 0)))"

section \<open>The numpy operations on masks\<close>

lemma length_masked [simp]: "length (masked m f xs) = length xs"
  by (simp add: masked_def)

lemma nth_masked [simp]: "i < length xs \<Longrightarrow> masked m f xs ! i = (if m ! i then f i else xs ! i)"
  by (simp add: masked_def)

lemma np_bin_same: "length xs = length ys \<Longrightarrow> np_bin f xs ys = Inr (map2 f xs ys)"
  by (simp add: np_bin_def)

lemma np_bin_single: "np_bin f xs [y] = Inr (map (\<lambda>x. f x y) xs)"
  by (cases xs rule: list.exhaust; cases "tl xs") (auto simp: np_bin_def)

lemma set_np_where: "set (np_where m) = {i. i < length m \<and> m ! i}"
  by (auto simp: np_where_def)

lemma fold_upd_length:
  "length (fold (\<lambda>(i, v) ys. ys[i := v]) ps xs) = length xs"
  by (induction ps arbitrary: xs) (auto split: prod.splits)

lemma fold_upd_nth:
  "j < length xs \<Longrightarrow>
   fold (\<lambda>(i, v) ys. ys[i := v]) (zip idx (map f idx)) xs ! j = (if j \<in> set idx then f j else xs ! j)"
proof (induction idx arbitrary: xs)
  case Nil
  then show ?case by simp
next
  case (Cons i idx)
  have "length (xs[i := f i]) = length xs" by simp
  with Cons.prems have j: "j < length (xs[i := f i])" by simp
  show ?case
    using Cons.IH [OF j] Cons.prems by (auto simp: nth_list_update)
qed

lemma put_at_where:
  assumes "length m = length xs"
  shows "put_at xs (np_where m) (map f (np_where m)) = Inr (masked m f xs)"
proof -
  have bounds: "\<forall>i \<in> set (np_where m). i < length xs"
    using assms by (simp add: set_np_where)
  have "fold (\<lambda>(i, v) ys. ys[i := v]) (zip (np_where m) (map f (np_where m))) xs = masked m f xs"
    by (rule nth_equalityI) (simp_all add: fold_upd_length fold_upd_nth set_np_where assms [symmetric])
  with bounds show ?thesis by (simp add: put_at_def)
qed

lemma fold_set_as_put:
  "fold (\<lambda>i ys. ys[i := v]) idx xs = fold (\<lambda>(i, v) ys. ys[i := v]) (zip idx (map (\<lambda>_. v) idx)) xs"
  by (induction idx arbitrary: xs) auto

lemma set_at_where:
  assumes "length m = length xs"
  shows "set_at xs (np_where m) v = Inr (masked m (\<lambda>_. v) xs)"
proof -
  have "set_at xs (np_where m) v = put_at xs (np_where m) (map (\<lambda>_. v) (np_where m))"
    by (simp add: set_at_def put_at_def fold_set_as_put)
  then show ?thesis by (simp add: put_at_where assms)
qed

lemma take_at_where:
  "length m = length xs \<Longrightarrow> take_at xs (np_where m) = Inr (map (\<lambda>i. xs ! i) (np_where m))"
  by (simp add: take_at_def set_np_where)

lemma aug_at_scalar_where:
  assumes "length m = length xs"
  shows "aug_at_scalar f xs (np_where m) v = Inr (masked m (\<lambda>j. f (xs ! j) v) xs)"
  using put_at_where [OF assms, of "\<lambda>j. f (xs ! j) v"]
  by (simp add: aug_at_scalar_def take_at_where assms bindE_def comp_def)

lemma plus_current_ok:
  assumes "ok_input self Io" "length xs = nat (num self)"
  shows "plus_current xs (add_Iex Io) = Inr (map (\<lambda>i. xs ! i + (cur Io i + Iex)) [0..<nat (num self)])"
proof (cases Io)
  case (Scalar x)
  then show ?thesis
    using assms by (auto simp: plus_current_def add_Iex_def cur_def intro!: nth_equalityI)
next
  case (Vector ys)
  then have "length ys = length xs" using assms by (simp add: ok_input_def)
  then show ?thesis
    using assms Vector
    by (auto simp: plus_current_def add_Iex_def cur_def np_bin_same intro!: nth_equalityI)
qed

lemma dmem_dt_expr_ok:
  assumes "wf self" "ok_input self Io"
  shows "dmem_dt_expr self (add_Iex Io) = Inr (map (dmem_dt_at self Io) [0..<nat (num self)])"
proof -
  let ?n = "nat (num self)"
  let ?s3 = "map (\<lambda>i. - g_L * (mem self ! i - E_L)
              + g_L * Delta_T * exp ((mem self ! i - V_T self ! i) / Delta_T)
              - w self ! i + w_tail self ! i) [0..<?n]"
  have len: "length (mem self) = ?n" "length (w self) = ?n" "length (w_tail self) = ?n"
    "length (V_T self) = ?n"
    using assms(1) by (simp_all add: wf_def)
  have s3: "bindE (np_bin (-) (mem self) (V_T self)) (\<lambda>d.
     bindE (np_bin (+) (map (\<lambda>m. - g_L * (m - E_L)) (mem self))
                        (map (\<lambda>x. g_L * Delta_T * exp (x / Delta_T)) d)) (\<lambda>s1.
     bindE (np_bin (-) s1 (w self)) (\<lambda>s2. bindE (np_bin (+) s2 (w_tail self)) k))) = k ?s3" for k :: "real list \<Rightarrow> error + real list"
  proof -
    have "map2 (+) (map2 (-) (map2 (+) (map (\<lambda>m. - g_L * (m - E_L)) (mem self))
            (map (\<lambda>x. g_L * Delta_T * exp (x / Delta_T)) (map2 (-) (mem self) (V_T self)))) (w self)) (w_tail self) = ?s3"
      by (rule nth_equalityI) (simp_all add: len)
    then show ?thesis
      by (simp add: np_bin_same len bindE_def)
  qed
  have "dmem_dt_expr self (add_Iex Io) =
      bindE (plus_current ?s3 (add_Iex Io)) (\<lambda>s4. Inr (map (\<lambda>x. 1 / C * x) s4))"
    unfolding dmem_dt_expr_def by (rule s3)
  also have "\<dots> = Inr (map (dmem_dt_at self Io) [0..<?n])"
    using plus_current_ok [OF assms(2), of ?s3]
    by (simp add: bindE_def dmem_dt_at_def)
  finally show ?thesis .
qed

lemma dw_dt_expr_ok:
  assumes "wf self"
  shows "dw_dt_expr self = Inr (map (dw_dt_at self) [0..<nat (num self)])"
proof -
  have len: "length (mem self) = nat (num self)" "length (w self) = nat (num self)"
    using assms by (simp_all add: wf_def)
  have "map (\<lambda>x. 1 / tau_w * x) (map2 (-) (map (\<lambda>m. a * (m - E_L)) (mem self)) (w self))
      = map (dw_dt_at self) [0..<nat (num self)]"
    by (rule nth_equalityI) (simp_all add: len dw_dt_at_def)
  then show ?thesis
    by (simp add: dw_dt_expr_def np_bin_same len bindE_def)
qed

lemma updateVar_ok:
  assumes "wf self" "ok_input self Io"
  shows "updateVar self (add_Iex Io) = (None, euler self Io)"
proof -
  let ?n = "nat (num self)"
  have len: "length (mem self) = ?n" "length (w self) = ?n"
    using assms(1) by (simp_all add: wf_def)
  have m: "map2 (+) (mem self) (map (\<lambda>x. x * dt self) (map (dmem_dt_at self Io) [0..<?n]))
      = map (\<lambda>i. mem self ! i + dmem_dt_at self Io i * dt self) [0..<?n]"
    by (rule nth_equalityI) (simp_all add: len)
  have w: "map2 (+) (w self) (map (\<lambda>x. x * dt self) (map (dw_dt_at self) [0..<?n]))
      = map (\<lambda>i. w self ! i + dw_dt_at self i * dt self) [0..<?n]"
    by (rule nth_equalityI) (simp_all add: len)
  show ?thesis
    unfolding updateVar_def dmem_dt_expr_ok [OF assms] dw_dt_expr_ok [OF assms(1)]
    using m w
    by (simp add: raising_def Let_def np_bin_same len euler_def)
qed

lemma wf_euler: "wf self \<Longrightarrow> wf (euler self Io)"
  by (simp add: wf_def euler_def)

lemma onset_block_ok:
  assumes "wf self"
  shows "onset_block self (mem self) =
     (None, self\<lparr>mem := masked (onset_mask self) (\<lambda>_. 24.4) (mem self),
                 counter := masked (onset_mask self) (\<lambda>_. 1) (counter self)\<rparr>)"
proof -
  have len: "length (mem self) = nat (num self)" "length (counter self) = nat (num self)"
    using assms by (simp_all add: wf_def)
  have st: "spike_starts self (mem self) = Inr (np_where (onset_mask self))"
    by (simp add: spike_starts_def np_bin_same len bindE_def onset_mask_def)
  have lm: "length (onset_mask self) = nat (num self)"
    by (simp add: onset_mask_def len)
  show ?thesis
    unfolding onset_block_def st
    by (simp add: raising_def Let_def set_at_where lm len)
qed

lemma active_block_ok:
  assumes "wf self" "dw_dt self = Some dw" "length dw = nat (num self)" "dt self \<noteq> 0"
  shows "active_block self =
     (None, self\<lparr>mem := masked (active_mask self)
                     (\<lambda>j. 32.862 - 8.462 * of_int \<bar>py_round (conut self / 2) - counter self ! j\<bar> / conut self)
                     (mem self),
                 w := masked (active_mask self) (\<lambda>j. w self ! j - dw ! j * dt self) (w self),
                 counter := masked (active_mask self) (\<lambda>j. counter self ! j + 1) (counter self)\<rparr>)"
proof -
  have len: "length (mem self) = nat (num self)" "length (counter self) = nat (num self)"
    "length (w self) = nat (num self)"
    using assms by (simp_all add: wf_def)
  have lm: "length (active_mask self) = nat (num self)"
    by (simp add: active_mask_def len)
  have idx: "active_spikes self = np_where (active_mask self)"
    by (simp add: active_spikes_def active_mask_def)
  show ?thesis
    unfolding active_block_def idx
    using assms(2,4)
    put_at_where [of "active_mask self" "mem self" "\<lambda>j. 32.862 - 8.462 * of_int \<bar>py_round (conut self / 2) - counter self ! j\<bar> / conut self"]
    put_at_where [of "active_mask self" "w self" "\<lambda>j. w self ! j - dw ! j * dt self"]
    by (simp add: raising_def Let_def take_at_where aug_at_scalar_where lm len assms(3) comp_def map2_map_map)
qed

lemma end_block_ok:
  assumes "wf self"
  shows "end_block self =
     (None, self\<lparr>mem := masked (end_mask self) (\<lambda>_. E_L + 15 + 6.0984) (mem self),
                 w := masked (end_mask self) (\<lambda>j. w self ! j + b) (w self),
                 w_tail := masked (end_mask self) (\<lambda>_. w_jump) (w_tail self),
                 V_T := masked (end_mask self) (\<lambda>_. VT_jump + VT_rest) (V_T self),
                 counter := masked (end_mask self) (\<lambda>_. 0) (counter self)\<rparr>)"
proof -
  have len: "length (mem self) = nat (num self)" "length (counter self) = nat (num self)"
    "length (w self) = nat (num self)" "length (w_tail self) = nat (num self)"
    "length (V_T self) = nat (num self)"
    using assms by (simp_all add: wf_def)
  have lm: "length (end_mask self) = nat (num self)"
    by (simp add: end_mask_def len)
  have idx: "end_spikes self = np_where (end_mask self)"
    by (simp add: end_spikes_def end_mask_def)
  show ?thesis
    unfolding end_block_def idx
    by (simp add: raising_def Let_def set_at_where aug_at_scalar_where lm len)
qed

lemma after_update_eq: "wf self \<Longrightarrow> ok_input self Io \<Longrightarrow> after_update self Io = euler self Io"
  by (simp add: after_update_def updateVar_ok)

lemma euler_fields [simp]:
  "num (euler self Io) = num self" "dt (euler self Io) = dt self" "t (euler self Io) = t self"
  "counter (euler self Io) = counter self"
  "dw_dt (euler self Io) = Some (map (dw_dt_at self) [0..<nat (num self)])"
  by (simp_all add: euler_def)

lemma after_onset_eq:
  assumes "wf self" "ok_input self Io"
  shows "after_onset self Io =
     (euler self Io)\<lparr>mem := masked (onset_mask (euler self Io)) (\<lambda>_. 24.4) (mem (euler self Io)),
                      counter := masked (onset_mask (euler self Io)) (\<lambda>_. 1) (counter self)\<rparr>"
  using onset_block_ok [OF wf_euler [OF assms(1)], of Io]
  by (simp add: after_onset_def after_update_eq assms)

lemma after_onset_fields [simp]:
  assumes "wf self" "ok_input self Io"
  shows "num (after_onset self Io) = num self" "dt (after_onset self Io) = dt self"
    "t (after_onset self Io) = t self"
    "w (after_onset self Io) = w (euler self Io)"
    "w_tail (after_onset self Io) = w_tail (euler self Io)"
    "V_T (after_onset self Io) = V_T (euler self Io)"
    "dw_dt (after_onset self Io) = Some (map (dw_dt_at self) [0..<nat (num self)])"
  by (simp_all add: after_onset_eq assms)

lemma wf_after_onset:
  assumes "wf self" "ok_input self Io"
  shows "wf (after_onset self Io)"
  using wf_euler [OF assms(1), of Io] assms(1)
  by (simp add: after_onset_eq assms wf_def)

lemma after_active_eq:
  assumes "wf self" "ok_input self Io" "dt self \<noteq> 0"
  shows "active_block (after_onset self Io) =
     (None, (after_onset self Io)\<lparr>mem := masked (active_mask (after_onset self Io))
                     (\<lambda>j. 32.862 - 8.462 * of_int \<bar>py_round (conut self / 2) - counter (after_onset self Io) ! j\<bar> / conut self)
                     (mem (after_onset self Io)),
                 w := masked (active_mask (after_onset self Io))
                     (\<lambda>j. w (euler self Io) ! j - dw_dt_at self j * dt self) (w (euler self Io)),
                 counter := masked (active_mask (after_onset self Io))
                     (\<lambda>j. counter (after_onset self Io) ! j + 1) (counter (after_onset self Io))\<rparr>)"
proof -
  let ?s = "after_onset self Io"
  let ?dw = "map (dw_dt_at self) [0..<nat (num self)]"
  have c: "conut ?s = conut self"
    by (simp add: conut_def assms)
  have lw: "length (w (euler self Io)) = nat (num self)"
    using wf_euler [OF assms(1), of Io] by (simp add: wf_def)
  have "masked (active_mask ?s) (\<lambda>j. w ?s ! j - ?dw ! j * dt ?s) (w ?s)
      = masked (active_mask ?s) (\<lambda>j. w (euler self Io) ! j - dw_dt_at self j * dt self) (w (euler self Io))"
    by (rule nth_equalityI) (simp_all add: assms lw)
  then show ?thesis
    using active_block_ok [OF wf_after_onset [OF assms(1,2)], of ?dw]
    by (simp add: assms c)
qed

lemma wf_after_active:
  assumes "wf self" "ok_input self Io" "dt self \<noteq> 0"
  shows "wf (after_active self Io)"
  using wf_after_onset [OF assms(1,2)]
  unfolding after_active_def after_active_eq [OF assms]
  by (simp add: wf_def after_onset_fields [OF assms(1,2)])

lemma after_active_fields [simp]:
  assumes "wf self" "ok_input self Io" "dt self \<noteq> 0"
  shows "num (after_active self Io) = num self" "dt (after_active self Io) = dt self"
    "t (after_active self Io) = t self"
    "w_tail (after_active self Io) = w_tail (euler self Io)"
    "V_T (after_active self Io) = V_T (euler self Io)"
  by (simp_all add: after_active_def after_active_eq assms)

lemma spikes_eval_ok:
  assumes "wf self" "ok_input self Io" "dt self \<noteq> 0"
  shows "spikes_eval (euler self Io) (mem (euler self Io)) = end_block (after_active self Io)"
proof -
  have o: "onset_block (euler self Io) (mem (euler self Io)) = (None, after_onset self Io)"
    using onset_block_ok [OF wf_euler [OF assms(1)], of Io]
    by (simp add: after_onset_def after_update_eq assms)
  have a: "active_block (after_onset self Io) = (None, after_active self Io)"
    by (simp add: after_active_def after_active_eq assms)
  show ?thesis
    by (simp add: spikes_eval_def andthen_def o a)
qed

lemma call_ok:
  assumes "wf self" "ok_input self Io" "dt self \<noteq> 0"
  shows "call self Io = (None, (snd (end_block (after_active self Io)))\<lparr>t := t self + dt self\<rparr>)"
    and "fst (end_block (after_active self Io)) = None"
proof -
  have e: "fst (end_block (after_active self Io)) = None"
    by (simp add: end_block_ok [OF wf_after_active [OF assms]])
  have f: "t (snd (end_block (after_active self Io))) = t self"
    "dt (snd (end_block (after_active self Io))) = dt self"
    by (simp_all add: end_block_ok [OF wf_after_active [OF assms]] assms)
  show "fst (end_block (after_active self Io)) = None" by (rule e)
  show "call self Io = (None, (snd (end_block (after_active self Io)))\<lparr>t := t self + dt self\<rparr>)"
    by (simp add: call_def updateVar_ok assms andthen_def spikes_eval_ok e f)
qed

lemma after_update_nth:
  assumes "wf self" "ok_input self Io" "i < nat (num self)"
  shows "mem (after_update self Io) ! i = mem self ! i + dmem_dt_at self Io i * dt self"
    and "w (after_update self Io) ! i = w self ! i + dw_dt_at self i * dt self"
    and "w_tail (after_update self Io) ! i = w_tail self ! i - w_tail self ! i * dt self / tau_wtail"
    and "V_T (after_update self Io) ! i =
           VT_rest * dt self / tau_VT + (1 - dt self / tau_VT) * V_T self ! i"
  using assms by (simp_all add: after_update_eq euler_def wf_def)

lemma spike_starts_ok:
  assumes "wf self"
  shows "spike_starts self (mem self) = Inr (np_where (onset_mask self))"
  using assms by (simp add: spike_starts_def np_bin_same bindE_def onset_mask_def wf_def)

lemma onset_mask_nth:
  assumes "wf self" "i < nat (num self)"
  shows "onset_mask self ! i \<longleftrightarrow> th < mem self ! i \<and> counter self ! i = 0"
  using assms by (simp add: onset_mask_def wf_def)

lemma length_onset_mask: "wf self \<Longrightarrow> length (onset_mask self) = nat (num self)"
  by (simp add: onset_mask_def wf_def)

lemma onset_at_iff:
  assumes "wf self" "ok_input self Io" "i < nat (num self)"
  shows "onset_at self Io i \<longleftrightarrow> th < mem (after_update self Io) ! i \<and> counter self ! i = 0"
proof -
  have e: "wf (euler self Io)" by (rule wf_euler [OF assms(1)])
  show ?thesis
    using onset_mask_nth [OF e, of i] length_onset_mask [OF e] assms(3)
    by (simp add: onset_at_def after_update_eq assms(1,2) spike_starts_ok [OF e] set_np_where)
qed

lemma after_onset_nth:
  assumes "wf self" "ok_input self Io" "i < nat (num self)"
  shows "counter (after_onset self Io) ! i = (if onset_at self Io i then 1 else counter self ! i)"
    and "mem (after_onset self Io) ! i =
           (if onset_at self Io i then 24.4 else mem (after_update self Io) ! i)"
proof -
  have e: "wf (euler self Io)" by (rule wf_euler [OF assms(1)])
  have m: "onset_mask (euler self Io) ! i \<longleftrightarrow> onset_at self Io i"
    using onset_mask_nth [OF e, of i] assms(3)
    by (simp add: onset_at_iff assms after_update_eq)
  have len: "length (counter self) = nat (num self)" "length (mem (euler self Io)) = nat (num self)"
    using assms(1) e by (simp_all add: wf_def)
  show "counter (after_onset self Io) ! i = (if onset_at self Io i then 1 else counter self ! i)"
    by (simp add: after_onset_eq assms(1,2) assms(3) len m)
  show "mem (after_onset self Io) ! i =
           (if onset_at self Io i then 24.4 else mem (after_update self Io) ! i)"
    by (simp add: after_onset_eq assms(1,2) assms(3) len m after_update_eq)
qed

lemma active_mask_nth:
  assumes "wf self" "i < nat (num self)"
  shows "active_mask self ! i \<longleftrightarrow> dt self * of_int (counter self ! i) < t_spike \<and> 0 < counter self ! i"
  using assms by (simp add: active_mask_def wf_def)

lemma active_at_iff:
  assumes "wf self" "ok_input self Io" "i < nat (num self)"
  shows "active_at self Io i \<longleftrightarrow>
     dt self * of_int (counter (after_onset self Io) ! i) < t_spike \<and> 0 < counter (after_onset self Io) ! i"
proof -
  have o: "wf (after_onset self Io)" by (rule wf_after_onset [OF assms(1,2)])
  have n: "num (after_onset self Io) = num self" "dt (after_onset self Io) = dt self"
    by (simp_all add: assms(1,2))
  have l: "length (counter (after_onset self Io)) = nat (num self)"
    using o by (simp add: wf_def n)
  show ?thesis
    using active_mask_nth [OF o, of i] assms(3)
    by (simp add: active_at_def active_spikes_def set_np_where l n active_mask_def)
qed

lemma after_active_nth:
  assumes "wf self" "ok_input self Io" "dt self \<noteq> 0" "i < nat (num self)"
  shows "counter (after_active self Io) ! i =
           (if active_at self Io i then counter (after_onset self Io) ! i + 1
            else counter (after_onset self Io) ! i)"
    and "mem (after_active self Io) ! i =
           (if active_at self Io i
            then 32.862 - 8.462 * of_int \<bar>py_round (conut self / 2) - counter (after_onset self Io) ! i\<bar> / conut self
            else mem (after_onset self Io) ! i)"
    and "w (after_active self Io) ! i =
           (if active_at self Io i then w self ! i else w self ! i + dw_dt_at self i * dt self)"
proof -
  have o: "wf (after_onset self Io)" by (rule wf_after_onset [OF assms(1,2)])
  have n: "num (after_onset self Io) = num self" "dt (after_onset self Io) = dt self"
    by (simp_all add: assms(1,2))
  have l: "length (counter (after_onset self Io)) = nat (num self)"
    "length (mem (after_onset self Io)) = nat (num self)"
    using o by (simp_all add: wf_def n)
  have lw: "length (w (euler self Io)) = nat (num self)"
    using wf_euler [OF assms(1), of Io] by (simp add: wf_def)
  have m: "active_mask (after_onset self Io) ! i \<longleftrightarrow> active_at self Io i"
    using active_mask_nth [OF o, of i] assms(4)
    by (simp add: active_at_iff [OF assms(1,2,4)] n)
  have we: "w (euler self Io) ! i = w self ! i + dw_dt_at self i * dt self"
    using after_update_nth(2) [OF assms(1,2,4)] by (simp add: after_update_eq assms(1,2))
  show "counter (after_active self Io) ! i =
           (if active_at self Io i then counter (after_onset self Io) ! i + 1
            else counter (after_onset self Io) ! i)"
    unfolding after_active_def after_active_eq [OF assms(1,2,3)]
    by (simp add: l assms(4) m)
  show "mem (after_active self Io) ! i =
           (if active_at self Io i
            then 32.862 - 8.462 * of_int \<bar>py_round (conut self / 2) - counter (after_onset self Io) ! i\<bar> / conut self
            else mem (after_onset self Io) ! i)"
    unfolding after_active_def after_active_eq [OF assms(1,2,3)]
    by (simp add: l assms(4) m)
  show "w (after_active self Io) ! i =
           (if active_at self Io i then w self ! i else w self ! i + dw_dt_at self i * dt self)"
    unfolding after_active_def after_active_eq [OF assms(1,2,3)]
    by (simp add: lw assms(4) m we)
qed

lemma end_at_iff:
  assumes "wf self" "ok_input self Io" "dt self \<noteq> 0" "i < nat (num self)"
  shows "end_at self Io i \<longleftrightarrow> t_spike \<le> dt self * of_int (counter (after_active self Io) ! i)"
proof -
  have o: "wf (after_active self Io)" by (rule wf_after_active [OF assms(1,2,3)])
  have n: "num (after_active self Io) = num self" "dt (after_active self Io) = dt self"
    by (simp_all add: assms(1,2,3))
  have l: "length (counter (after_active self Io)) = nat (num self)"
    using o by (simp add: wf_def n)
  show ?thesis
    using assms(4) by (simp add: end_at_def end_spikes_def set_np_where l n)
qed

lemma call_nth:
  assumes "wf self" "ok_input self Io" "dt self \<noteq> 0" "i < nat (num self)"
  shows "counter (snd (call self Io)) ! i = (if end_at self Io i then 0 else counter (after_active self Io) ! i)"
    and "mem (snd (call self Io)) ! i =
           (if end_at self Io i then E_L + 15 + 6.0984 else mem (after_active self Io) ! i)"
    and "w (snd (call self Io)) ! i =
           (if end_at self Io i then w (after_active self Io) ! i + b else w (after_active self Io) ! i)"
    and "w_tail (snd (call self Io)) ! i =
           (if end_at self Io i then w_jump else w_tail (after_update self Io) ! i)"
    and "V_T (snd (call self Io)) ! i =
           (if end_at self Io i then VT_jump + VT_rest else V_T (after_update self Io) ! i)"
proof -
  have o: "wf (after_active self Io)" by (rule wf_after_active [OF assms(1,2,3)])
  have n: "num (after_active self Io) = num self" "dt (after_active self Io) = dt self"
    by (simp_all add: assms(1,2,3))
  have l: "length (counter (after_active self Io)) = nat (num self)"
    "length (mem (after_active self Io)) = nat (num self)"
    "length (w (after_active self Io)) = nat (num self)"
    "length (w_tail (after_active self Io)) = nat (num self)"
    "length (V_T (after_active self Io)) = nat (num self)"
    using o by (simp_all add: wf_def n)
  have m: "end_mask (after_active self Io) ! i \<longleftrightarrow> end_at self Io i"
    using assms(4) by (simp add: end_at_iff [OF assms] end_mask_def l n)
  have f: "w_tail (after_active self Io) = w_tail (after_update self Io)"
    "V_T (after_active self Io) = V_T (after_update self Io)"
    by (simp_all add: assms(1,2,3) after_update_eq)
  note c = call_ok(1) [OF assms(1,2,3)] end_block_ok [OF o]
  show "counter (snd (call self Io)) ! i = (if end_at self Io i then 0 else counter (after_active self Io) ! i)"
    unfolding c using l assms(4) by (simp add: m)
  show "mem (snd (call self Io)) ! i =
           (if end_at self Io i then E_L + 15 + 6.0984 else mem (after_active self Io) ! i)"
    unfolding c using l assms(4) by (simp add: m)
  show "w (snd (call self Io)) ! i =
           (if end_at self Io i then w (after_active self Io) ! i + b else w (after_active self Io) ! i)"
    unfolding c using l assms(4) by (simp add: m)
  show "w_tail (snd (call self Io)) ! i =
           (if end_at self Io i then w_jump else w_tail (after_update self Io) ! i)"
    unfolding c using l assms(4) by (simp add: m f [symmetric])
  show "V_T (snd (call self Io)) ! i =
           (if end_at self Io i then VT_jump + VT_rest else V_T (after_update self Io) ! i)"
    unfolding c using l assms(4) by (simp add: m f [symmetric])
qed

lemma call_frame:
  assumes "wf self" "ok_input self Io" "dt self \<noteq> 0"
  shows "fst (call self Io) = None" and "wf (snd (call self Io))"
    and "num (snd (call self Io)) = num self" and "dt (snd (call self Io)) = dt self"
    and "t (snd (call self Io)) = t self + dt self"
proof -
  have o: "wf (after_active self Io)" by (rule wf_after_active [OF assms(1,2,3)])
  have n: "num (after_active self Io) = num self" "dt (after_active self Io) = dt self"
    by (simp_all add: assms(1,2,3))
  note c = call_ok(1) [OF assms(1,2,3)] end_block_ok [OF o]
  show "fst (call self Io) = None" unfolding c by simp
  show "wf (snd (call self Io))" unfolding c using o by (simp add: wf_def)
  show "num (snd (call self Io)) = num self" unfolding c by (simp add: n)
  show "dt (snd (call self Io)) = dt self" unfolding c by (simp add: n)
  show "t (snd (call self Io)) = t self + dt self" unfolding c by simp
qed

section \<open>A neuron inside the spike window, over one call and over several\<close>

text \<open>
  For a positive step, \<open>dt * c < t_spike\<close> holds for an integer \<open>c\<close> exactly when \<open>c\<close> is
  below the ceiling of \<open>t_spike / dt\<close>.
\<close>

lemma ok_input_num: "num s' = num s \<Longrightarrow> ok_input s' Io = ok_input s Io"
  by (cases Io) (simp_all add: ok_input_def)

lemma below_ceiling:
  assumes "0 < (h::real)"
  shows "h * of_int c < x \<longleftrightarrow> c < \<lceil>x / h\<rceil>"
  using assms by (simp add: less_ceiling_iff pos_less_divide_eq mult.commute)

lemma reaches_ceiling:
  assumes "0 < (h::real)"
  shows "x \<le> h * of_int c \<longleftrightarrow> \<not> c < \<lceil>x / h\<rceil>"
  using below_ceiling [OF assms, of c x] by linarith

lemma onset_call_counter:
  assumes "wf self" "ok_input self Io" "0 < dt self" "i < nat (num self)"
    and "onset_at self Io i"
  shows "counter (snd (call self Io)) ! i = (if 2 < \<lceil>t_spike / dt self\<rceil> then 2 else 0)"
    and "active_at self Io i \<longleftrightarrow> 1 < \<lceil>t_spike / dt self\<rceil>"
proof -
  have d: "dt self \<noteq> 0" using assms(3) by simp
  have c1: "counter (after_onset self Io) ! i = 1"
    by (simp add: after_onset_nth [OF assms(1,2,4)] assms(5))
  show ac: "active_at self Io i \<longleftrightarrow> 1 < \<lceil>t_spike / dt self\<rceil>"
    using below_ceiling [OF assms(3), of 1 t_spike]
    by (simp add: active_at_iff [OF assms(1,2,4)] c1)
  have c2: "counter (after_active self Io) ! i = (if 1 < \<lceil>t_spike / dt self\<rceil> then 2 else 1)"
    by (simp add: after_active_nth [OF assms(1,2) d assms(4)] ac c1)
  have e: "end_at self Io i \<longleftrightarrow> \<not> counter (after_active self Io) ! i < \<lceil>t_spike / dt self\<rceil>"
    using reaches_ceiling [OF assms(3), of t_spike "counter (after_active self Io) ! i"]
    by (simp add: end_at_iff [OF assms(1,2) d assms(4)])
  show "counter (snd (call self Io)) ! i = (if 2 < \<lceil>t_spike / dt self\<rceil> then 2 else 0)"
    by (simp add: call_nth [OF assms(1,2) d assms(4)] e c2)
qed

lemma midspike_call:
  assumes "wf self" "ok_input self Io" "0 < dt self" "i < nat (num self)"
    and "0 < counter self ! i" "counter self ! i < \<lceil>t_spike / dt self\<rceil>"
  shows "counter (snd (call self Io)) ! i =
      (if counter self ! i + 1 < \<lceil>t_spike / dt self\<rceil> then counter self ! i + 1 else 0)"
    and "\<not> onset_at self Io i" and "active_at self Io i"
    and "end_at self Io i \<longleftrightarrow> \<not> counter self ! i + 1 < \<lceil>t_spike / dt self\<rceil>"
proof -
  have d: "dt self \<noteq> 0" using assms(3) by simp
  show o: "\<not> onset_at self Io i"
    using assms(5) by (simp add: onset_at_iff [OF assms(1,2,4)])
  have c1: "counter (after_onset self Io) ! i = counter self ! i"
    by (simp add: after_onset_nth [OF assms(1,2,4)] o)
  show ac: "active_at self Io i"
    using below_ceiling [OF assms(3), of "counter self ! i" t_spike] assms(5,6)
    by (simp add: active_at_iff [OF assms(1,2,4)] c1)
  have c2: "counter (after_active self Io) ! i = counter self ! i + 1"
    by (simp add: after_active_nth [OF assms(1,2) d assms(4)] ac c1)
  show e: "end_at self Io i \<longleftrightarrow> \<not> counter self ! i + 1 < \<lceil>t_spike / dt self\<rceil>"
    using reaches_ceiling [OF assms(3), of t_spike "counter self ! i + 1"]
    by (simp add: end_at_iff [OF assms(1,2) d assms(4)] c2)
  show "counter (snd (call self Io)) ! i =
      (if counter self ! i + 1 < \<lceil>t_spike / dt self\<rceil> then counter self ! i + 1 else 0)"
    by (simp add: call_nth [OF assms(1,2) d assms(4)] e c2)
qed

lemma midspike_run:
  assumes "wf self" "0 < dt self" "i < nat (num self)"
    and "\<forall>Io \<in> set Ios. ok_input self Io"
    and "0 < counter self ! i" "counter self ! i < \<lceil>t_spike / dt self\<rceil>"
    and "counter self ! i + int (length Ios) \<le> \<lceil>t_spike / dt self\<rceil>"
  shows "fst (run self Ios) = None \<and> wf (snd (run self Ios))
    \<and> num (snd (run self Ios)) = num self \<and> dt (snd (run self Ios)) = dt self
    \<and> counter (snd (run self Ios)) ! i =
        (if counter self ! i + int (length Ios) < \<lceil>t_spike / dt self\<rceil>
         then counter self ! i + int (length Ios) else 0)"
  using assms
proof (induction Ios arbitrary: self)
  case Nil
  then show ?case by simp
next
  case (Cons Io Ios)
  let ?s = "snd (call self Io)"
  have ok: "ok_input self Io" using Cons.prems(4) by simp
  have d: "dt self \<noteq> 0" using Cons.prems(2) by simp
  note fr = call_frame [OF Cons.prems(1) ok d]
  note mc = midspike_call(1) [OF Cons.prems(1) ok Cons.prems(2,3,5,6)]
  have r: "run self (Io # Ios) = run ?s Ios"
    using fr(1) by (simp add: andthen_def)
  show ?case
  proof (cases "counter self ! i + 1 < \<lceil>t_spike / dt self\<rceil>")
    case True
    have c: "counter ?s ! i = counter self ! i + 1" using mc True by simp
    have oks: "\<forall>Io \<in> set Ios. ok_input ?s Io"
      using Cons.prems(4) by (simp add: ok_input_num [OF fr(3)])
    have "fst (run ?s Ios) = None \<and> wf (snd (run ?s Ios))
      \<and> num (snd (run ?s Ios)) = num ?s \<and> dt (snd (run ?s Ios)) = dt ?s
      \<and> counter (snd (run ?s Ios)) ! i =
        (if counter ?s ! i + int (length Ios) < \<lceil>t_spike / dt ?s\<rceil>
         then counter ?s ! i + int (length Ios) else 0)"
      using Cons.prems(2,3,5,7) True
      by (intro Cons.IH fr(2) oks) (simp_all add: fr(3,4) c)
    then show ?thesis
      unfolding r by (simp add: fr(3,4) c ac_simps)
  next
    case False
    with Cons.prems(7) Cons.prems(5) have "Ios = []" by (cases Ios) auto
    then show ?thesis
      unfolding r using False mc fr by simp
  qed
qed

lemma call_counter_window:
  assumes "wf self" "ok_input self Io" "0 < dt self" "i < nat (num self)"
    and "0 < counter (snd (call self Io)) ! i"
  shows "counter (snd (call self Io)) ! i < \<lceil>t_spike / dt self\<rceil>"
proof -
  have d: "dt self \<noteq> 0" using assms(3) by simp
  note c = call_nth(1) [OF assms(1,2) d assms(4)]
  have ne: "\<not> end_at self Io i" using assms(5) by (auto simp: c)
  then have "counter (snd (call self Io)) ! i = counter (after_active self Io) ! i"
    by (simp add: c)
  moreover have "\<not> t_spike \<le> dt self * of_int (counter (after_active self Io) ! i)"
    using ne by (simp add: end_at_iff [OF assms(1,2) d assms(4)])
  ultimately show ?thesis
    using reaches_ceiling [OF assms(3), of t_spike "counter (after_active self Io) ! i"] by simp
qed

section \<open>Input arrays of another length\<close>

lemma call_single: "call self (Vector [x]) = call self (Scalar x)"
proof -
  have p: "plus_current ys (add_Iex (Vector [x])) = plus_current ys (add_Iex (Scalar x))" for ys
    by (simp add: plus_current_def add_Iex_def np_bin_single)
  have "dmem_dt_expr self (add_Iex (Vector [x])) = dmem_dt_expr self (add_Iex (Scalar x))"
    by (simp add: dmem_dt_expr_def p)
  then have "updateVar self (add_Iex (Vector [x])) = updateVar self (add_Iex (Scalar x))"
    by (simp add: updateVar_def)
  then show ?thesis by (simp add: call_def)
qed

lemma dmem_dt_expr_mismatch:
  assumes "wf self" "length xs \<noteq> nat (num self)" "length xs \<noteq> 1" "num self \<noteq> 1"
  shows "dmem_dt_expr self (add_Iex (Vector xs)) = Inl ValueError"
proof -
  have len: "length (mem self) = nat (num self)" "length (w self) = nat (num self)"
    "length (w_tail self) = nat (num self)" "length (V_T self) = nat (num self)"
    using assms(1) by (simp_all add: wf_def)
  have n: "nat (num self) \<noteq> Suc 0" using assms(4) by linarith
  have "np_bin (+) ys (map (\<lambda>x. x + Iex) xs) = Inl ValueError" if "length ys = nat (num self)" for ys
    using that assms(2,3) n by (auto simp: np_bin_def)
  then show ?thesis
    by (simp add: dmem_dt_expr_def np_bin_same len bindE_def plus_current_def add_Iex_def)
qed

section \<open>The example ensembles\<close>

lemma ex_state_eq:
  "ex_state = \<lparr>num = 1, method_name = ''euler'', dt = 0.25, t = 0, mem = [E_L], w = [0], w_tail = [0],
      V_T = [- 50.4], N_vars = 4, counter = [0], dw_dt = None\<rparr>"
  by (simp add: ex_state_def aEIF_init_def Neurons_init_def params_def vars_def andthen_def new_object_def)

lemma ex_state_wf: "wf ex_state" "num ex_state = 1" "dt ex_state = 1 / 4" "counter ex_state = [0]"
  by (simp_all add: ex_state_eq wf_def)

lemma ex_state_ok: "ok_input ex_state (Scalar x)"
  by (simp add: ok_input_def)

text \<open>A current of \<open>10^6\<close> takes the resting neuron over the threshold in one step; no current does not.\<close>

lemma ex_state_crosses: "th < mem (after_update ex_state (Scalar 1000000)) ! 0"
proof -
  have "0 < e \<Longrightarrow> 20 < (60 * e + 1000000) / 1124 - 353 / (5::real)" for e :: real
    by argo
  then have "20 < (60 * exp (- (101 / 10)) + 1000000) / 1124 - 353 / (5::real)"
    using exp_gt_zero by blast
  then show ?thesis
    unfolding after_update_nth(1) [OF ex_state_wf(1) ex_state_ok, of 0, simplified ex_state_wf, simplified]
    by (simp add: dmem_dt_at_def ex_state_eq cur_def th_def C_def g_L_def E_L_def Delta_T_def Iex_def)
qed

lemma ex_state_rests: "\<not> th < mem (after_update ex_state (Scalar 0)) ! 0"
proof -
  have "e \<le> 1 \<Longrightarrow> \<not> 20 < 15 * e / 281 - 353 / (5::real)" for e :: real
    by argo
  moreover have "exp (- (101 / 10) :: real) \<le> 1" by simp
  ultimately have "\<not> 20 < 15 * exp (- (101 / 10)) / 281 - 353 / (5::real)" by blast
  then show ?thesis
    unfolding after_update_nth(1) [OF ex_state_wf(1) ex_state_ok, of 0, simplified ex_state_wf, simplified]
    by (simp add: dmem_dt_at_def ex_state_eq cur_def th_def C_def g_L_def E_L_def Delta_T_def Iex_def)
qed

lemma ex_state_onset: "onset_at ex_state (Scalar 1000000) 0"
  using ex_state_crosses
  by (simp add: onset_at_iff [OF ex_state_wf(1) ex_state_ok] ex_state_wf)

lemma ex_state_active: "active_at ex_state (Scalar 1000000) 0"
  using ex_state_onset
  by (simp add: active_at_iff [OF ex_state_wf(1) ex_state_ok] after_onset_nth [OF ex_state_wf(1) ex_state_ok]
      ex_state_wf t_spike_def)

lemma ex_state_ceiling: "\<lceil>t_spike / dt ex_state\<rceil> = 8"
  by (simp add: ex_state_wf t_spike_def)

lemma ex_state_run:
  assumes "k \<le> 6"
  shows "wf (snd (run (snd (call ex_state (Scalar 1000000))) (replicate k (Scalar 0))))"
    and "num (snd (run (snd (call ex_state (Scalar 1000000))) (replicate k (Scalar 0)))) = 1"
    and "dt (snd (run (snd (call ex_state (Scalar 1000000))) (replicate k (Scalar 0)))) = 1 / 4"
    and "counter (snd (run (snd (call ex_state (Scalar 1000000))) (replicate k (Scalar 0)))) ! 0
          = (if k < 6 then int k + 2 else 0)"
proof -
  let ?s = "snd (call ex_state (Scalar 1000000))"
  have d: "0 < dt ex_state" "dt ex_state \<noteq> 0" "0 < nat (num ex_state)"
    by (simp_all add: ex_state_wf)
  note fr = call_frame [OF ex_state_wf(1) ex_state_ok d(2), of 1000000]
  have c: "counter ?s ! 0 = 2"
    using onset_call_counter(1) [OF ex_state_wf(1) ex_state_ok d(1,3) ex_state_onset]
    by (simp add: ex_state_ceiling)
  have n: "num ?s = 1" "dt ?s = 1 / 4" "\<lceil>t_spike / dt ?s\<rceil> = 8"
    using ex_state_ceiling by (simp_all add: fr(3,4) ex_state_wf)
  have "fst (run ?s (replicate k (Scalar 0))) = None \<and> wf (snd (run ?s (replicate k (Scalar 0))))
    \<and> num (snd (run ?s (replicate k (Scalar 0)))) = num ?s
    \<and> dt (snd (run ?s (replicate k (Scalar 0)))) = dt ?s
    \<and> counter (snd (run ?s (replicate k (Scalar 0)))) ! 0 =
        (if counter ?s ! 0 + int (length (replicate k (Scalar 0))) < \<lceil>t_spike / dt ?s\<rceil>
         then counter ?s ! 0 + int (length (replicate k (Scalar 0))) else 0)"
  proof (rule midspike_run [OF fr(2)])
    show "0 < dt ?s" "0 < nat (num ?s)" by (simp_all add: n)
    show "\<forall>Io \<in> set (replicate k (Scalar 0)). ok_input ?s Io" by (simp add: ok_input_def)
    show "0 < counter ?s ! 0" by (simp add: c)
    show "counter ?s ! 0 < \<lceil>t_spike / dt ?s\<rceil>" unfolding n(3) c by simp
    show "counter ?s ! 0 + int (length (replicate k (Scalar 0))) \<le> \<lceil>t_spike / dt ?s\<rceil>"
      unfolding n(3) c using assms by simp
  qed
  then show "wf (snd (run ?s (replicate k (Scalar 0))))"
    and "num (snd (run ?s (replicate k (Scalar 0)))) = 1"
    and "dt (snd (run ?s (replicate k (Scalar 0)))) = 1 / 4"
    and "counter (snd (run ?s (replicate k (Scalar 0)))) ! 0 = (if k < 6 then int k + 2 else 0)"
    unfolding n(3) c using assms by (auto simp: n(1,2))
qed

lemma ex_last_facts: "wf ex_last" "num ex_last = 1" "dt ex_last = 1 / 4" "counter ex_last ! 0 = 7"
  using ex_state_run [of 5] by (simp_all add: ex_last_def)

lemma ex_last_ok: "ok_input ex_last (Scalar x)"
  by (simp add: ok_input_def)

lemma ex_last_active: "active_at ex_last (Scalar 0) 0" and ex_last_end: "end_at ex_last (Scalar 0) 0"
proof -
  have d: "0 < dt ex_last" "0 < nat (num ex_last)"
    by (simp_all add: ex_last_facts)
  have c: "0 < counter ex_last ! 0" "counter ex_last ! 0 < \<lceil>t_spike / dt ex_last\<rceil>"
    by (simp_all add: ex_last_facts t_spike_def)
  note m = midspike_call [OF ex_last_facts(1) ex_last_ok d c]
  show "active_at ex_last (Scalar 0) 0" by (rule m(3))
  show "end_at ex_last (Scalar 0) 0" by (simp add: m(4) ex_last_facts t_spike_def)
qed

lemma ex_coarse_eq:
  "ex_coarse = \<lparr>num = 1, method_name = ''euler'', dt = 1, t = 0, mem = [E_L], w = [0], w_tail = [0],
      V_T = [- 50.4], N_vars = 4, counter = [0], dw_dt = None\<rparr>"
  by (simp add: ex_coarse_def aEIF_init_def Neurons_init_def params_def vars_def andthen_def new_object_def)

lemma ex_coarse_wf: "wf ex_coarse" "num ex_coarse = 1" "dt ex_coarse = 1" "counter ex_coarse = [0]"
  by (simp_all add: ex_coarse_eq wf_def)

lemma ex_coarse_ok: "ok_input ex_coarse (Scalar x)"
  by (simp add: ok_input_def)

lemma ex_coarse_crosses: "th < mem (after_update ex_coarse (Scalar 1000000)) ! 0"
proof -
  have "0 < e \<Longrightarrow> 20 < (60 * e + 1000000) / 281 - 353 / (5::real)" for e :: real
    by argo
  then have "20 < (60 * exp (- (101 / 10)) + 1000000) / 281 - 353 / (5::real)"
    using exp_gt_zero by blast
  then show ?thesis
    unfolding after_update_nth(1) [OF ex_coarse_wf(1) ex_coarse_ok, of 0, simplified ex_coarse_wf, simplified]
    by (simp add: dmem_dt_at_def ex_coarse_eq cur_def th_def C_def g_L_def E_L_def Delta_T_def Iex_def)
qed

lemma ex_coarse_onset: "onset_at ex_coarse (Scalar 1000000) 0"
  using ex_coarse_crosses
  by (simp add: onset_at_iff [OF ex_coarse_wf(1) ex_coarse_ok] ex_coarse_wf)

lemma ex_coarse_active: "active_at ex_coarse (Scalar 1000000) 0"
  using ex_coarse_onset
  by (simp add: active_at_iff [OF ex_coarse_wf(1) ex_coarse_ok] after_onset_nth [OF ex_coarse_wf(1) ex_coarse_ok]
      ex_coarse_wf t_spike_def)

lemma ex_coarse_end: "end_at ex_coarse (Scalar 1000000) 0"
  using ex_coarse_onset ex_coarse_active
  by (simp add: end_at_iff [OF ex_coarse_wf(1) ex_coarse_ok] after_active_nth [OF ex_coarse_wf(1) ex_coarse_ok]
      after_onset_nth [OF ex_coarse_wf(1) ex_coarse_ok] ex_coarse_wf t_spike_def)

lemma ex_pair_eq:
  "ex_pair = \<lparr>num = 2, method_name = ''euler'', dt = 0.25, t = 0, mem = [E_L, E_L], w = [0, 0],
      w_tail = [0, 0], V_T = [- 50.4, - 50.4], N_vars = 4, counter = [0, 0], dw_dt = None\<rparr>"
  by (simp add: ex_pair_def aEIF_init_def Neurons_init_def params_def vars_def andthen_def new_object_def
      numeral_2_eq_2)

lemma ex_pair_wf: "wf ex_pair" "num ex_pair = 2" "dt ex_pair = 1 / 4" "t ex_pair = 0"
  by (simp_all add: ex_pair_eq wf_def)

section \<open>The properties\<close>

text \<open>
  In the statements below an ensemble is well formed (\<open>wf\<close>) when its arrays have the
  length \<open>num\<close>, and the input fits (\<open>ok_input\<close>) when it is a float or an array of that
  length. \<open>onset_at\<close>, \<open>active_at\<close> and \<open>end_at\<close> say that the Onset, Active and End block
  of the call selects the neuron; \<open>after_update\<close>, \<open>after_onset\<close> and \<open>after_active\<close> are
  the object after the Euler step and after the first and the second block.
\<close>

text \<open>
  Claim C1, as amended. The claim says that a neuron whose counter becomes 1 in a call has
  its counter back at 0 after exactly \<open>ceil(t_spike / dt)\<close> subsequent calls. In the code
  the End block resets a counter in the very call in which the Active block takes it to
  \<open>dt * counter >= t_spike\<close>, so the number is smaller. In the comparison of the code
  itself: for \<open>dt > 0\<close> and a neuron whose spike began in a call that returned with the
  counter at \<open>c > 0\<close>, the counter is \<open>c + k\<close> after \<open>k\<close> subsequent calls as long as
  \<open>dt * (c + k) < t_spike\<close>, and the first subsequent call whose increment takes it to
  \<open>dt * counter >= t_spike\<close> returns it to 0, never later and never earlier, whether or not
  \<open>dt\<close> divides \<open>t_spike\<close>. In exact arithmetic, the products not rounded, that call is
  subsequent call number \<open>ceil(t_spike / dt) - c\<close>: this is the last line of the theorem,
  which in floating point can differ by one call where \<open>dt * counter\<close> rounds to \<open>t_spike\<close>.
\<close>

theorem spike_window:
  assumes "wf self" "ok_input self Io" "0 < dt self" "i < nat (num self)"
    and "onset_at self Io i"
    and "0 < counter (snd (call self Io)) ! i"
    and "\<forall>I \<in> set Ios. ok_input self I" and "ok_input self I'"
    and "dt self * of_int (counter (snd (call self Io)) ! i + int (length Ios)) < t_spike"
  shows "fst (run (snd (call self Io)) (Ios @ [I'])) = None
    \<and> counter (snd (run (snd (call self Io)) Ios)) ! i
        = counter (snd (call self Io)) ! i + int (length Ios)
    \<and> counter (snd (run (snd (call self Io)) (Ios @ [I']))) ! i
        = (if dt self * of_int (counter (snd (call self Io)) ! i + int (length Ios) + 1) < t_spike
           then counter (snd (call self Io)) ! i + int (length Ios) + 1 else 0)
    \<and> (dt self * of_int (counter (snd (call self Io)) ! i + int (length Ios) + 1) < t_spike
        \<longleftrightarrow> counter (snd (call self Io)) ! i + int (length Ios) + 1 < \<lceil>t_spike / dt self\<rceil>)"
proof -
  let ?s = "snd (call self Io)"
  let ?c = "counter ?s ! i"
  let ?N = "\<lceil>t_spike / dt self\<rceil>"
  have d: "dt self \<noteq> 0" using assms(3) by simp
  note fr = call_frame [OF assms(1,2) d]
  have in_window: "?c + int (length Ios) < ?N"
    using assms(9) below_ceiling [OF assms(3), of "?c + int (length Ios)" t_spike] by simp
  then have cN: "?c < ?N" by linarith
  have last: "dt self * of_int (?c + int (length Ios) + 1) < t_spike
      \<longleftrightarrow> ?c + int (length Ios) + 1 < ?N"
    by (rule below_ceiling [OF assms(3)])
  have pos: "0 < dt ?s" "i < nat (num ?s)"
    using assms(3,4) by (simp_all add: fr(3,4))
  have cNs: "?c < \<lceil>t_spike / dt ?s\<rceil>"
    unfolding fr(4) by (rule cN)
  have oks: "\<forall>I \<in> set Ios. ok_input ?s I"
    using assms(7) by (simp add: ok_input_num [OF fr(3)])
  have oks': "\<forall>I \<in> set (Ios @ [I']). ok_input ?s I"
    using assms(7,8) by (simp add: ok_input_num [OF fr(3)])
  have k: "?c + int (length Ios) \<le> \<lceil>t_spike / dt ?s\<rceil>"
    unfolding fr(4) using in_window by simp
  have k': "?c + int (length (Ios @ [I'])) \<le> \<lceil>t_spike / dt ?s\<rceil>"
    unfolding fr(4) using in_window by simp
  have r: "counter (snd (run ?s Ios)) ! i = ?c + int (length Ios)"
    using midspike_run [OF fr(2) pos oks assms(6) cNs k] in_window
    unfolding fr(4) by simp
  have r': "fst (run ?s (Ios @ [I'])) = None
      \<and> counter (snd (run ?s (Ios @ [I']))) ! i
          = (if ?c + int (length Ios) + 1 < ?N then ?c + int (length Ios) + 1 else 0)"
    using midspike_run [OF fr(2) pos oks' assms(6) cNs k']
    unfolding fr(4) by (simp add: add.assoc)
  show ?thesis
    unfolding last using r r' by blast
qed

theorem spike_window_witness:
  "wf ex_state \<and> ok_input ex_state (Scalar 1000000) \<and> 0 < dt ex_state \<and> 0 < nat (num ex_state)
    \<and> onset_at ex_state (Scalar 1000000) 0
    \<and> 0 < counter (snd (call ex_state (Scalar 1000000))) ! 0
    \<and> set (replicate 5 (Scalar 0)) = {Scalar 0} \<and> ok_input ex_state (Scalar 0)
    \<and> dt ex_state * of_int (counter (snd (call ex_state (Scalar 1000000))) ! 0
          + int (length (replicate 5 (Scalar 0)))) < t_spike
    \<and> fst (run (snd (call ex_state (Scalar 1000000))) (replicate 5 (Scalar 0) @ [Scalar 0])) = None
    \<and> counter (snd (run (snd (call ex_state (Scalar 1000000))) (replicate 5 (Scalar 0)))) ! 0 = 7
    \<and> counter (snd (run (snd (call ex_state (Scalar 1000000))) (replicate 5 (Scalar 0) @ [Scalar 0]))) ! 0 = 0
    \<and> \<not> dt ex_state * of_int (counter (snd (call ex_state (Scalar 1000000))) ! 0
          + int (length (replicate 5 (Scalar 0))) + 1) < t_spike
    \<and> counter (snd (call ex_state (Scalar 1000000))) ! 0 + int (length (replicate 5 (Scalar 0))) + 1
          = \<lceil>t_spike / dt ex_state\<rceil>"
proof -
  have h: "0 < dt ex_state" "0 < nat (num ex_state)"
    by (simp_all add: ex_state_wf)
  have c: "counter (snd (call ex_state (Scalar 1000000))) ! 0 = 2"
    using ex_state_run(4) [of 0] by simp
  have h6: "0 < counter (snd (call ex_state (Scalar 1000000))) ! 0"
    by (simp add: c)
  have h7: "\<forall>I \<in> set (replicate 5 (Scalar 0)). ok_input ex_state I"
    by (simp add: ok_input_def)
  have h9: "dt ex_state * of_int (counter (snd (call ex_state (Scalar 1000000))) ! 0
          + int (length (replicate 5 (Scalar 0)))) < t_spike"
    unfolding c by (simp add: ex_state_wf t_spike_def)
  from spike_window [OF ex_state_wf(1) ex_state_ok h ex_state_onset h6 h7 ex_state_ok h9, of 0]
  show ?thesis
    using ex_state_wf(1) ex_state_ok h ex_state_onset h6 h7 h9
    unfolding c by (simp add: ex_state_wf t_spike_def)
qed

text \<open>
  The claim as stated fails for the default ensemble: with \<open>dt = 0.25\<close> the ceiling is 8,
  and the counter is back at 0 after 6 subsequent calls.
\<close>

theorem spike_window_counterexample:
  "onset_at ex_state (Scalar 1000000) 0
    \<and> counter (snd (run (snd (call ex_state (Scalar 1000000))) (replicate 6 (Scalar 0)))) ! 0 = 0
    \<and> length (replicate 6 (Scalar 0)) \<noteq> nat \<lceil>t_spike / dt ex_state\<rceil>"
  using ex_state_onset ex_state_run(4) [of 6] by (simp add: ex_state_ceiling)

text \<open>
  Claim C2, as amended. The claim says that a neuron matches at most one of the three
  conditions in a call. In the code the End block computes its mask from the counter as the
  Active block left it, so that a counter is reset in the call in which it reaches the
  bound: a neuron selected by the Active block is selected by the End block too exactly
  when its incremented counter satisfies \<open>dt * counter >= t_spike\<close>. A neuron that the Onset
  block does not select and for which \<open>dt * (counter + 1) < t_spike\<close> before the call is
  not selected by both the Active and the End block.
\<close>

theorem blocks_cascade:
  assumes "wf self" "ok_input self Io" "dt self \<noteq> 0" "i < nat (num self)"
  shows "(active_at self Io i \<longrightarrow>
         (end_at self Io i \<longleftrightarrow> t_spike \<le> dt self * of_int (counter (after_onset self Io) ! i + 1)))
    \<and> (\<not> onset_at self Io i \<and> dt self * of_int (counter self ! i + 1) < t_spike \<longrightarrow>
         \<not> (active_at self Io i \<and> end_at self Io i))"
proof -
  note o = after_onset_nth(1) [OF assms(1,2,4)]
  note c2 = after_active_nth(1) [OF assms]
  note e = end_at_iff [OF assms]
  have 2: "active_at self Io i \<longrightarrow>
         (end_at self Io i \<longleftrightarrow> t_spike \<le> dt self * of_int (counter (after_onset self Io) ! i + 1))"
    by (simp add: e c2)
  have 3: "\<not> onset_at self Io i \<and> dt self * of_int (counter self ! i + 1) < t_spike \<longrightarrow>
         \<not> (active_at self Io i \<and> end_at self Io i)"
    by (auto simp: e c2 o)
  from 2 3 show ?thesis by blast
qed

theorem blocks_cascade_witness:
  "wf ex_last \<and> ok_input ex_last (Scalar 0) \<and> dt ex_last \<noteq> 0 \<and> 0 < nat (num ex_last)
    \<and> active_at ex_last (Scalar 0) 0
    \<and> (end_at ex_last (Scalar 0) 0 \<longleftrightarrow>
          t_spike \<le> dt ex_last * of_int (counter (after_onset ex_last (Scalar 0)) ! 0 + 1))"
proof -
  have h: "dt ex_last \<noteq> 0" "0 < nat (num ex_last)"
    by (simp_all add: ex_last_facts)
  from blocks_cascade [OF ex_last_facts(1) ex_last_ok h, of 0]
  show ?thesis
    using ex_last_facts(1) ex_last_ok h ex_last_active by blast
qed

text \<open>
  The claim as stated fails in the last call of the spike window of the default ensemble:
  the Active and the End block both select the neuron.
\<close>

theorem blocks_cascade_counterexample:
  "active_at ex_last (Scalar 0) 0 \<and> end_at ex_last (Scalar 0) 0"
  using ex_last_active ex_last_end by simp

text \<open>
  Claim C3 says that a neuron with counter 0 whose potential after the Euler update exceeds
  \<open>th\<close> has \<open>mem = 24.4\<close> and \<open>counter = 1\<close> when the call returns. The Onset block
  assigns these values, but the code does not return them: the Active block computes its
  mask after the Onset block has set the counter, so for \<open>dt > 0\<close> the Active or the End
  block of the same call selects the neuron again. On return the counter is 2 and \<open>mem\<close> is
  the waveform value for counter 1 when \<open>2 * dt < t_spike\<close>, and otherwise the counter is 0
  and \<open>mem\<close> is the reset value \<open>E_L + 15 + 6.0984\<close>. The theorem states what the code
  does; the evaluation after it is the default ensemble with a current of \<open>10^6\<close>.
\<close>

theorem onset_overwritten:
  assumes "wf self" "ok_input self Io" "0 < dt self" "i < nat (num self)"
    and "counter self ! i = 0" "th < mem (after_update self Io) ! i"
  shows "mem (after_onset self Io) ! i = 24.4 \<and> counter (after_onset self Io) ! i = 1
    \<and> counter (snd (call self Io)) ! i = (if 2 * dt self < t_spike then 2 else 0)
    \<and> mem (snd (call self Io)) ! i =
        (if 2 * dt self < t_spike
         then 32.862 - 8.462 * of_int \<bar>py_round (conut self / 2) - 1\<bar> / conut self
         else E_L + 15 + 6.0984)"
proof -
  have d: "dt self \<noteq> 0" using assms(3) by simp
  have on: "onset_at self Io i"
    using assms(5,6) by (simp add: onset_at_iff [OF assms(1,2,4)])
  note o = after_onset_nth [OF assms(1,2,4)]
  have c1: "counter (after_onset self Io) ! i = 1" and m1: "mem (after_onset self Io) ! i = 24.4"
    using on by (simp_all add: o)
  have ac: "active_at self Io i \<longleftrightarrow> dt self < t_spike"
    by (simp add: active_at_iff [OF assms(1,2,4)] c1)
  note aa = after_active_nth [OF assms(1,2) d assms(4)]
  note e = end_at_iff [OF assms(1,2) d assms(4)]
  note c = call_nth [OF assms(1,2) d assms(4)]
  show ?thesis
  proof (cases "2 * dt self < t_spike")
    case True
    with assms(3) have "dt self < t_spike" by simp
    then have a: "active_at self Io i" by (simp add: ac)
    have ne: "\<not> end_at self Io i" using True by (simp add: e aa(1) a c1 mult.commute)
    show ?thesis using True by (simp add: c ne aa a c1 m1)
  next
    case False
    have en: "end_at self Io i"
    proof (cases "dt self < t_spike")
      case True
      then show ?thesis using False by (simp add: e aa(1) ac c1 mult.commute)
    next
      case False
      then show ?thesis by (simp add: e aa(1) ac c1)
    qed
    show ?thesis using False by (simp add: c en c1 m1)
  qed
qed

theorem onset_overwritten_witness:
  "wf ex_state \<and> ok_input ex_state (Scalar 1000000) \<and> 0 < dt ex_state \<and> 0 < nat (num ex_state)
    \<and> counter ex_state ! 0 = 0 \<and> th < mem (after_update ex_state (Scalar 1000000)) ! 0
    \<and> mem (after_onset ex_state (Scalar 1000000)) ! 0 = 24.4
    \<and> counter (after_onset ex_state (Scalar 1000000)) ! 0 = 1
    \<and> counter (snd (call ex_state (Scalar 1000000))) ! 0 = 2
    \<and> mem (snd (call ex_state (Scalar 1000000))) ! 0 = 32.862 - 8.462 * 3 / 7"
proof -
  have h: "0 < dt ex_state" "0 < nat (num ex_state)" "counter ex_state ! 0 = 0"
    by (simp_all add: ex_state_wf)
  have r: "py_round (7 / 2) = 4"
    by (simp add: py_round_def Let_def)
  from onset_overwritten [OF ex_state_wf(1) ex_state_ok h ex_state_crosses]
  show ?thesis
    using ex_state_wf(1) ex_state_ok h ex_state_crosses
    by (simp add: ex_state_wf t_spike_def conut_def r)
qed

text \<open>
  Claim C4, as amended. The class has no check of the input length of its own; what fails
  is numpy's broadcasting. For a well-formed ensemble of \<open>num \<noteq> 1\<close> neurons and an input
  array whose length is neither \<open>num\<close> nor 1, the call raises \<open>ValueError\<close> in the first
  statement of \<open>updateVar\<close> and leaves the object exactly as it was.
\<close>

theorem wrong_length_rejected:
  assumes "wf self" "length xs \<noteq> nat (num self)" "length xs \<noteq> 1" "num self \<noteq> 1"
  shows "call self (Vector xs) = (Some ValueError, self)"
  by (simp add: call_def updateVar_def dmem_dt_expr_mismatch [OF assms] raising_def andthen_def)

theorem wrong_length_rejected_witness:
  "wf ex_pair \<and> length [0, 0, 0 :: real] \<noteq> nat (num ex_pair) \<and> length [0, 0, 0 :: real] \<noteq> 1
    \<and> num ex_pair \<noteq> 1 \<and> call ex_pair (Vector [0, 0, 0]) = (Some ValueError, ex_pair)"
proof -
  have h: "length [0, 0, 0 :: real] \<noteq> nat (num ex_pair)" "length [0, 0, 0 :: real] \<noteq> 1"
    "num ex_pair \<noteq> 1"
    by (simp_all add: ex_pair_wf)
  from wrong_length_rejected [OF ex_pair_wf(1) h]
  show ?thesis using ex_pair_wf(1) h by blast
qed

text \<open>
  The claim as stated fails: an array of length 1 given to two neurons is broadcast like a
  float, the call succeeds and the state changes.
\<close>

theorem wrong_length_rejected_counterexample:
  "length [0 :: real] \<noteq> nat (num ex_pair) \<and> fst (call ex_pair (Vector [0])) = None
    \<and> snd (call ex_pair (Vector [0])) \<noteq> ex_pair"
proof -
  have ok: "ok_input ex_pair (Scalar 0)" by (simp add: ok_input_def)
  have d: "dt ex_pair \<noteq> 0" by (simp add: ex_pair_wf)
  note fr = call_frame [OF ex_pair_wf(1) ok d]
  have "t (snd (call ex_pair (Scalar 0))) \<noteq> t ex_pair"
    by (simp add: fr(5) ex_pair_wf)
  then have "snd (call ex_pair (Scalar 0)) \<noteq> ex_pair" by auto
  then show ?thesis
    using fr(1) by (simp add: call_single ex_pair_wf)
qed

text \<open>
  Claim C5. Construction fails with \<open>InvalidConfiguration\<close> whenever the neuron count
  \<open>N\<close> is less than 1 or the time step \<open>dt\<close> is not positive; in particular with
  \<open>N = 0\<close>. The check is the one of the base class, which is modelled from the
  specification.
\<close>

theorem construction_rejects:
  assumes "N < 1 \<or> h \<le> 0"
  shows "fst (aEIF_init N meth h) = Some InvalidConfiguration"
  using assms by (simp add: aEIF_init_def Neurons_init_def andthen_def)

theorem construction_rejects_witness:
  "((0::int) < 1 \<or> (0.25::real) \<le> 0) \<and> fst (aEIF_init 0 ''euler'' 0.25) = Some InvalidConfiguration"
  using construction_rejects [where N = 0 and h = "0.25" and meth = "''euler''"] by simp

text \<open>
  Claim C6. For every neuron that takes the End block in a step call (\<open>dt * counter >= t_spike\<close>
  when the End block selects), when the call returns that neuron has
  \<open>mem = E_L + 15 + 6.0984\<close>, \<open>w\<close> increased by \<open>b\<close> relative to its value just before
  the End block, \<open>w_tail = w_jump\<close>, \<open>V_T = VT_jump + VT_rest\<close> and \<open>counter = 0\<close>.
\<close>

theorem end_reset:
  assumes "wf self" "ok_input self Io" "dt self \<noteq> 0" "i < nat (num self)"
    and "end_at self Io i"
  shows "fst (call self Io) = None
    \<and> mem (snd (call self Io)) ! i = E_L + 15 + 6.0984
    \<and> w (snd (call self Io)) ! i = w (after_active self Io) ! i + b
    \<and> w_tail (snd (call self Io)) ! i = w_jump
    \<and> V_T (snd (call self Io)) ! i = VT_jump + VT_rest
    \<and> counter (snd (call self Io)) ! i = 0"
  using assms(5) call_nth [OF assms(1-4)] call_frame(1) [OF assms(1-3)] by simp

theorem end_reset_witness:
  "wf ex_coarse \<and> ok_input ex_coarse (Scalar 1000000) \<and> dt ex_coarse \<noteq> 0 \<and> 0 < nat (num ex_coarse)
    \<and> end_at ex_coarse (Scalar 1000000) 0
    \<and> fst (call ex_coarse (Scalar 1000000)) = None
    \<and> mem (snd (call ex_coarse (Scalar 1000000))) ! 0 = E_L + 15 + 6.0984
    \<and> w (snd (call ex_coarse (Scalar 1000000))) ! 0 = w (after_active ex_coarse (Scalar 1000000)) ! 0 + b
    \<and> w_tail (snd (call ex_coarse (Scalar 1000000))) ! 0 = w_jump
    \<and> V_T (snd (call ex_coarse (Scalar 1000000))) ! 0 = VT_jump + VT_rest
    \<and> counter (snd (call ex_coarse (Scalar 1000000))) ! 0 = 0"
proof -
  have h: "dt ex_coarse \<noteq> 0" "0 < nat (num ex_coarse)"
    by (simp_all add: ex_coarse_wf)
  from end_reset [OF ex_coarse_wf(1) ex_coarse_ok h ex_coarse_end]
  show ?thesis
    using ex_coarse_wf(1) ex_coarse_ok h ex_coarse_end by simp
qed

text \<open>
  Claim C7. For every neuron with \<open>counter = 0\<close> before a step call whose membrane
  potential after the Euler update does not exceed \<open>th\<close>, no block of the spike protocol
  applies and the state after the call is given by the explicit Euler formulas computed
  from the state before the call: both derivatives are evaluated at the old \<open>mem\<close> and
  \<open>w\<close>, the current is the input plus \<open>Iex\<close>, and the clock advances by \<open>dt\<close>.
\<close>

theorem euler_step:
  assumes "wf self" "ok_input self Io" "dt self \<noteq> 0" "i < nat (num self)"
    and "counter self ! i = 0"
    and "mem self ! i + dt self * (1 / C) * (- g_L * (mem self ! i - E_L)
            + g_L * Delta_T * exp ((mem self ! i - V_T self ! i) / Delta_T)
            - w self ! i + w_tail self ! i + (cur Io i + Iex)) \<le> th"
  shows "fst (call self Io) = None
    \<and> mem (snd (call self Io)) ! i =
        mem self ! i + dt self * (1 / C) * (- g_L * (mem self ! i - E_L)
            + g_L * Delta_T * exp ((mem self ! i - V_T self ! i) / Delta_T)
            - w self ! i + w_tail self ! i + (cur Io i + Iex))
    \<and> w (snd (call self Io)) ! i =
        w self ! i + dt self * (1 / tau_w) * (a * (mem self ! i - E_L) - w self ! i)
    \<and> w_tail (snd (call self Io)) ! i = w_tail self ! i - w_tail self ! i * dt self / tau_wtail
    \<and> V_T (snd (call self Io)) ! i =
        VT_rest * dt self / tau_VT + (1 - dt self / tau_VT) * V_T self ! i
    \<and> counter (snd (call self Io)) ! i = 0
    \<and> t (snd (call self Io)) = t self + dt self"
proof -
  note u = after_update_nth [OF assms(1,2,4)]
  have m: "mem (after_update self Io) ! i =
        mem self ! i + dt self * (1 / C) * (- g_L * (mem self ! i - E_L)
            + g_L * Delta_T * exp ((mem self ! i - V_T self ! i) / Delta_T)
            - w self ! i + w_tail self ! i + (cur Io i + Iex))"
    by (simp add: u dmem_dt_at_def)
  have o: "\<not> onset_at self Io i"
    using assms(6) by (simp add: onset_at_iff [OF assms(1,2,4)] m)
  have c1: "counter (after_onset self Io) ! i = 0"
    by (simp add: after_onset_nth [OF assms(1,2,4)] o assms(5))
  have ac: "\<not> active_at self Io i"
    by (simp add: active_at_iff [OF assms(1,2,4)] c1)
  have c2: "counter (after_active self Io) ! i = 0"
    by (simp add: after_active_nth [OF assms(1-4)] ac c1)
  have e: "\<not> end_at self Io i"
    by (simp add: end_at_iff [OF assms(1-4)] c2 t_spike_def)
  have w': "w (after_active self Io) ! i =
      w self ! i + dt self * (1 / tau_w) * (a * (mem self ! i - E_L) - w self ! i)"
    by (simp add: after_active_nth [OF assms(1-4)] ac dw_dt_at_def)
  have m': "mem (after_active self Io) ! i = mem (after_update self Io) ! i"
    by (simp add: after_active_nth [OF assms(1-4)] ac after_onset_nth [OF assms(1,2,4)] o)
  show ?thesis
    using call_nth [OF assms(1-4)] call_frame(1,5) [OF assms(1-3)]
    by (simp add: e c2 w' m' m u)
qed

theorem euler_step_witness:
  "wf ex_state \<and> ok_input ex_state (Scalar 0) \<and> dt ex_state \<noteq> 0 \<and> 0 < nat (num ex_state)
    \<and> counter ex_state ! 0 = 0
    \<and> mem ex_state ! 0 + dt ex_state * (1 / C) * (- g_L * (mem ex_state ! 0 - E_L)
            + g_L * Delta_T * exp ((mem ex_state ! 0 - V_T ex_state ! 0) / Delta_T)
            - w ex_state ! 0 + w_tail ex_state ! 0 + (cur (Scalar 0) 0 + Iex)) \<le> th
    \<and> fst (call ex_state (Scalar 0)) = None
    \<and> mem (snd (call ex_state (Scalar 0))) ! 0 =
        mem ex_state ! 0 + dt ex_state * (1 / C) * (- g_L * (mem ex_state ! 0 - E_L)
            + g_L * Delta_T * exp ((mem ex_state ! 0 - V_T ex_state ! 0) / Delta_T)
            - w ex_state ! 0 + w_tail ex_state ! 0 + (cur (Scalar 0) 0 + Iex))
    \<and> w (snd (call ex_state (Scalar 0))) ! 0 =
        w ex_state ! 0 + dt ex_state * (1 / tau_w) * (a * (mem ex_state ! 0 - E_L) - w ex_state ! 0)
    \<and> w_tail (snd (call ex_state (Scalar 0))) ! 0 =
        w_tail ex_state ! 0 - w_tail ex_state ! 0 * dt ex_state / tau_wtail
    \<and> V_T (snd (call ex_state (Scalar 0))) ! 0 =
        VT_rest * dt ex_state / tau_VT + (1 - dt ex_state / tau_VT) * V_T ex_state ! 0
    \<and> counter (snd (call ex_state (Scalar 0))) ! 0 = 0
    \<and> t (snd (call ex_state (Scalar 0))) = t ex_state + dt ex_state"
proof -
  have h: "dt ex_state \<noteq> 0" "0 < nat (num ex_state)" "counter ex_state ! 0 = 0"
    by (simp_all add: ex_state_wf)
  have h6: "mem ex_state ! 0 + dt ex_state * (1 / C) * (- g_L * (mem ex_state ! 0 - E_L)
            + g_L * Delta_T * exp ((mem ex_state ! 0 - V_T ex_state ! 0) / Delta_T)
            - w ex_state ! 0 + w_tail ex_state ! 0 + (cur (Scalar 0) 0 + Iex)) \<le> th"
  proof -
    have "mem (after_update ex_state (Scalar 0)) ! 0 =
        mem ex_state ! 0 + dt ex_state * (1 / C) * (- g_L * (mem ex_state ! 0 - E_L)
            + g_L * Delta_T * exp ((mem ex_state ! 0 - V_T ex_state ! 0) / Delta_T)
            - w ex_state ! 0 + w_tail ex_state ! 0 + (cur (Scalar 0) 0 + Iex))"
      by (simp add: after_update_nth(1) [OF ex_state_wf(1) ex_state_ok h(2)] dmem_dt_at_def)
    with ex_state_rests show ?thesis by linarith
  qed
  from euler_step [OF ex_state_wf(1) ex_state_ok h h6]
  show ?thesis
    using ex_state_wf(1) ex_state_ok h h6 by blast
qed

text \<open>
  Claim C8. After every successful step call every neuron's counter satisfies
  \<open>0 <= dt * counter < t_spike\<close>: a counter that reaches \<open>dt * counter >= t_spike\<close> during the
  call is selected by the End block and is 0 when the call returns. The counters of the
  ensemble are not negative before the call, as in every state the constructor and
  earlier calls produce, and \<open>dt\<close> is positive.
\<close>

theorem counter_bounded:
  assumes "wf self" "ok_input self Io" "0 < dt self" "i < nat (num self)"
    and "0 \<le> counter self ! i"
  shows "fst (call self Io) = None
    \<and> 0 \<le> counter (snd (call self Io)) ! i
    \<and> 0 \<le> dt self * of_int (counter (snd (call self Io)) ! i)
    \<and> dt self * of_int (counter (snd (call self Io)) ! i) < t_spike
    \<and> (end_at self Io i \<longrightarrow> counter (snd (call self Io)) ! i = 0)"
proof -
  have d: "dt self \<noteq> 0" using assms(3) by simp
  have c1: "0 \<le> counter (after_onset self Io) ! i"
    using assms(5) by (simp add: after_onset_nth [OF assms(1,2,4)])
  have c2: "0 \<le> counter (after_active self Io) ! i"
    using c1 by (simp add: after_active_nth [OF assms(1,2) d assms(4)])
  have c3: "counter (snd (call self Io)) ! i =
      (if t_spike \<le> dt self * of_int (counter (after_active self Io) ! i) then 0
       else counter (after_active self Io) ! i)"
    by (simp add: call_nth [OF assms(1,2) d assms(4)] end_at_iff [OF assms(1,2) d assms(4)])
  have nn: "0 \<le> counter (snd (call self Io)) ! i"
    using c2 by (simp add: c3)
  have lt: "dt self * of_int (counter (snd (call self Io)) ! i) < t_spike"
    by (simp add: c3 t_spike_def)
  have ge: "0 \<le> dt self * of_int (counter (snd (call self Io)) ! i)"
    using nn assms(3) by simp
  show ?thesis
    using call_frame(1) [OF assms(1,2) d] nn lt ge
    by (simp add: call_nth [OF assms(1,2) d assms(4)])
qed

theorem counter_bounded_witness:
  "wf ex_coarse \<and> ok_input ex_coarse (Scalar 1000000) \<and> 0 < dt ex_coarse \<and> 0 < nat (num ex_coarse)
    \<and> 0 \<le> counter ex_coarse ! 0
    \<and> fst (call ex_coarse (Scalar 1000000)) = None
    \<and> 0 \<le> counter (snd (call ex_coarse (Scalar 1000000))) ! 0
    \<and> 0 \<le> dt ex_coarse * of_int (counter (snd (call ex_coarse (Scalar 1000000))) ! 0)
    \<and> dt ex_coarse * of_int (counter (snd (call ex_coarse (Scalar 1000000))) ! 0) < t_spike
    \<and> end_at ex_coarse (Scalar 1000000) 0
    \<and> counter (snd (call ex_coarse (Scalar 1000000))) ! 0 = 0"
proof -
  have h: "0 < dt ex_coarse" "0 < nat (num ex_coarse)" "0 \<le> counter ex_coarse ! 0"
    by (simp_all add: ex_coarse_wf)
  from counter_bounded [OF ex_coarse_wf(1) ex_coarse_ok h]
  show ?thesis
    using ex_coarse_wf(1) ex_coarse_ok h ex_coarse_end by blast
qed

text \<open>
  Claim C9, as amended. For every neuron that takes the Active block in a step call, the
  block subtracts exactly the increment \<open>dw_dt * dt\<close> that the Euler update added, computed
  from the state before the call. When the End block of the same call does not select the
  neuron, its \<open>w\<close> on return equals its \<open>w\<close> before the call; when it does (the last call
  of a spike window), \<open>w\<close> on return is \<open>w\<close> before the call plus \<open>b\<close>.
\<close>

theorem active_freezes_w:
  assumes "wf self" "ok_input self Io" "dt self \<noteq> 0" "i < nat (num self)"
    and "active_at self Io i"
  shows "w (snd (call self Io)) ! i = (if end_at self Io i then w self ! i + b else w self ! i)"
  using assms(5) by (simp add: call_nth [OF assms(1-4)] after_active_nth [OF assms(1-4)])

theorem active_freezes_w_witness:
  "wf ex_state \<and> ok_input ex_state (Scalar 1000000) \<and> dt ex_state \<noteq> 0 \<and> 0 < nat (num ex_state)
    \<and> active_at ex_state (Scalar 1000000) 0
    \<and> w (snd (call ex_state (Scalar 1000000))) ! 0
        = (if end_at ex_state (Scalar 1000000) 0 then w ex_state ! 0 + b else w ex_state ! 0)"
proof -
  have h: "dt ex_state \<noteq> 0" "0 < nat (num ex_state)"
    by (simp_all add: ex_state_wf)
  from active_freezes_w [OF ex_state_wf(1) ex_state_ok h ex_state_active]
  show ?thesis
    using ex_state_wf(1) ex_state_ok h ex_state_active by blast
qed

text \<open>
  The claim as stated fails in the last call of the spike window of the default ensemble:
  the Active block selects the neuron and \<open>w\<close> changes.
\<close>

theorem active_freezes_w_counterexample:
  "active_at ex_last (Scalar 0) 0 \<and> w (snd (call ex_last (Scalar 0))) ! 0 \<noteq> w ex_last ! 0"
proof -
  have d: "0 < nat (num ex_last)" "dt ex_last \<noteq> 0"
    by (simp_all add: ex_last_facts)
  have "w (snd (call ex_last (Scalar 0))) ! 0 = w ex_last ! 0 + b"
    by (simp add: call_nth(3) [OF ex_last_facts(1) ex_last_ok d(2,1)] ex_last_end
        after_active_nth(3) [OF ex_last_facts(1) ex_last_ok d(2,1)] ex_last_active)
  then show ?thesis using ex_last_active by (simp add: b_def)
qed

text \<open>
  Claim C10. Whenever the Active block selects at least one neuron (some neuron has
  \<open>counter > 0\<close> and \<open>dt * counter < t_spike\<close>) and \<open>dt > 0\<close>, the divisor
  \<open>conut = t_spike / dt - 1\<close> of the waveform formula is strictly positive, so the
  waveform is never computed with a division by zero.
\<close>

theorem active_divisor_positive:
  assumes "0 < dt self" "active_spikes self \<noteq> []"
  shows "0 < conut self"
proof -
  from assms(2) obtain i where "i \<in> set (active_spikes self)"
    by (cases "active_spikes self") auto
  then have i: "i < length (counter self)"
    and c: "dt self * of_int (counter self ! i) < t_spike" "0 < counter self ! i"
    by (auto simp: active_spikes_def set_np_where)
  from c(2) have "1 \<le> (of_int (counter self ! i) :: real)" by simp
  with assms(1) have "dt self * 1 \<le> dt self * of_int (counter self ! i)"
    by (intro mult_left_mono) simp_all
  with c(1) have "dt self < t_spike" by simp
  with assms(1) have "1 < t_spike / dt self" by (simp add: field_simps)
  then show ?thesis by (simp add: conut_def)
qed

theorem active_divisor_positive_witness:
  "0 < dt (after_onset ex_state (Scalar 1000000))
   \<and> active_spikes (after_onset ex_state (Scalar 1000000)) \<noteq> []
   \<and> 0 < conut (after_onset ex_state (Scalar 1000000))"
proof -
  have h1: "0 < dt (after_onset ex_state (Scalar 1000000))"
    by (simp add: ex_state_wf ex_state_ok)
  have "0 \<in> set (active_spikes (after_onset ex_state (Scalar 1000000)))"
    using ex_state_active by (simp add: active_at_def)
  then have h2: "active_spikes (after_onset ex_state (Scalar 1000000)) \<noteq> []"
    by auto
  from h1 h2 active_divisor_positive [OF h1 h2] show ?thesis by simp
qed

end
